theory Spec2Isabelle
  imports Complex_Main "HOL-Library.Sublist" "HOL-Library.Word"
begin

section \<open>JavaScript strings\<close>

text \<open>
  A JavaScript string is modelled as a \<open>string\<close>: the code units below 256. The
  white space of \<open>String.prototype.trim\<close> and of the regular expression class
  \<open>\s\<close> is, in that range, TAB, LF, VT, FF, CR, SPACE and NBSP.
\<close>

definition is_js_space :: "char \<Rightarrow> bool" where
  "is_js_space c = (of_char c \<in> {9, 10, 11, 12, 13, 32, 160 :: nat})"

definition trim :: "string \<Rightarrow> string" where
  "trim s = rev (dropWhile is_js_space (rev (dropWhile is_js_space s)))"

text \<open>\<open>s.includes(sub)\<close>: \<open>sub\<close> occurs in \<open>s\<close> as a contiguous substring;
  \<open>s.startsWith(p)\<close>.\<close>

definition str_includes :: "string \<Rightarrow> string \<Rightarrow> bool" where
  "str_includes s sub = sublist sub s"

definition startsWith :: "string \<Rightarrow> string \<Rightarrow> bool" where
  "startsWith s p = prefix p s"

text \<open>\<open>toLowerCase\<close> on the code units below 256: the letters A to Z and the accented
  capitals 192 to 222 (but not 215, the multiplication sign) move up by 32.\<close>

definition toLowerChar :: "char \<Rightarrow> char" where
  "toLowerChar c =
     (let n = of_char c :: nat in
      if (65 \<le> n \<and> n \<le> 90) \<or> (192 \<le> n \<and> n \<le> 222 \<and> n \<noteq> 215) then char_of (n + 32) else c)"

definition toLowerCase :: "string \<Rightarrow> string" where
  "toLowerCase s = map toLowerChar s"

text \<open>
  \<open>s.split(/\s+/)\<close>: the pieces between the runs of white space; a run at the start or
  at the end gives an empty first or last piece, and the empty string gives one empty
  piece. \<open>cur\<close> is the piece being read, \<open>inRun\<close> says that the previous character was
  white space.
\<close>

fun split_ws_from :: "bool \<Rightarrow> string \<Rightarrow> string \<Rightarrow> string list" where
  "split_ws_from inRun cur [] = [cur]"
| "split_ws_from inRun cur (c # cs) =
     (if is_js_space c then
        (if inRun then split_ws_from True cur cs else cur # split_ws_from True [] cs)
      else split_ws_from False (cur @ [c]) cs)"

definition split_ws :: "string \<Rightarrow> string list" where
  "split_ws s = split_ws_from False [] s"

text \<open>Decimal rendering of a number in a template string.\<close>

definition digit_char :: "nat \<Rightarrow> char" where
  "digit_char d = ''0123456789'' ! (d mod 10)"

fun show_nat :: "nat \<Rightarrow> string" where
  "show_nat n = (if n < 10 then [digit_char n] else show_nat (n div 10) @ [digit_char (n mod 10)])"

declare show_nat.simps [simp del]

definition show_int :: "int \<Rightarrow> string" where
  "show_int i = (if i < 0 then CHR ''-'' # show_nat (nat (- i)) else show_nat (nat i))"

section \<open>Shared types (shared/types.ts)\<close>

datatype direction = Up | Down

datatype BrowserAction =
    Navigate string
  | Click string "string option"
  | TypeText string string "bool option"
  | Scroll "direction option" "string option"
  | Wait "string option" "nat option"
  | Extract string "string option"
  | Hover string
  | Select string string
  | PressKey string
  | Done string

text \<open>\<open>data\<close> is \<open>unknown\<close> in the source; the handlers modelled here store a string,
  a navigation request or a summary there.\<close>

datatype result_data =
    text_data string
  | navigation_data bool string
  | summary_data string

record ActionResult =
  success :: bool
  error :: "string option"
  data :: "result_data option"
  screenshot :: "string option"

record AgentStep =
  step_id :: string
  thought :: string
  action :: BrowserAction
  result :: "ActionResult option"
  timestamp :: int

record AgentState =
  isRunning :: bool
  isPaused :: bool
  currentTask :: string
  steps :: "AgentStep list"
  stepCount :: nat
  maxSteps :: nat
  startTime :: int
  state_error :: "string option"

record AgentConfig =
  cfg_maxSteps :: nat
  stepDelayMs :: int
  timeoutMs :: int
  retryCount :: nat
  autoApprove :: bool
  highlightElements :: bool

text \<open>\<open>Partial<AgentConfig>\<close>: every field may be absent.\<close>

record PartialAgentConfig =
  p_maxSteps :: "nat option"
  p_stepDelayMs :: "int option"
  p_timeoutMs :: "int option"
  p_retryCount :: "nat option"
  p_autoApprove :: "bool option"
  p_highlightElements :: "bool option"

definition DEFAULT_AGENT_CONFIG :: AgentConfig where
  "DEFAULT_AGENT_CONFIG =
     \<lparr> cfg_maxSteps = 20, stepDelayMs = 500, timeoutMs = 60000, retryCount = 2,
       autoApprove = True, highlightElements = True \<rparr>"

section \<open>Agent state (backend/agentService.ts)\<close>

text \<open>\<open>{ ...DEFAULT_AGENT_CONFIG, ...config }\<close>: a field of \<open>config\<close> that is present wins.\<close>

definition mergeConfig :: "AgentConfig \<Rightarrow> PartialAgentConfig option \<Rightarrow> AgentConfig" where
  "mergeConfig d config =
     (case config of
        None \<Rightarrow> d
      | Some c \<Rightarrow>
          \<lparr> cfg_maxSteps = (case p_maxSteps c of None \<Rightarrow> cfg_maxSteps d | Some v \<Rightarrow> v),
            stepDelayMs = (case p_stepDelayMs c of None \<Rightarrow> stepDelayMs d | Some v \<Rightarrow> v),
            timeoutMs = (case p_timeoutMs c of None \<Rightarrow> timeoutMs d | Some v \<Rightarrow> v),
            retryCount = (case p_retryCount c of None \<Rightarrow> retryCount d | Some v \<Rightarrow> v),
            autoApprove = (case p_autoApprove c of None \<Rightarrow> autoApprove d | Some v \<Rightarrow> v),
            highlightElements =
              (case p_highlightElements c of None \<Rightarrow> highlightElements d | Some v \<Rightarrow> v) \<rparr>)"

text \<open>\<open>createAgentState(task, config)\<close>; \<open>now\<close> is the value of \<open>Date.now()\<close>.\<close>

definition createAgentState :: "string \<Rightarrow> PartialAgentConfig option \<Rightarrow> int \<Rightarrow> AgentState" where
  "createAgentState task config now =
     (let mergedConfig = mergeConfig DEFAULT_AGENT_CONFIG config in
      \<lparr> isRunning = True, isPaused = False, currentTask = task, steps = [], stepCount = 0,
        maxSteps = cfg_maxSteps mergedConfig, startTime = now, state_error = None \<rparr>)"

definition addStep :: "AgentState \<Rightarrow> AgentStep \<Rightarrow> AgentState" where
  "addStep state step = state\<lparr> steps := steps state @ [step], stepCount := stepCount state + 1 \<rparr>"



section \<open>Token-budget packer (content/contentExtractor.ts, content/contentScript.ts)\<close>

datatype chunk_type = Heading | Paragraph | Code | ListChunk | Quote

record ContentChunk =
  ctype :: chunk_type
  priority :: int
  chunk_text :: string
  tokens :: nat
  level :: "nat option"

text \<open>
  The \<open>for ... of\<close> loop of \<open>buildOptimizedContent\<close> with its \<open>break\<close>: the chunks
  still to visit, the budget, \<open>totalTokens\<close> and \<open>selectedChunks\<close>. The token counts are
  the non-negative estimates \<open>Math.ceil(text.length / 4)\<close> of \<open>estimateTokens\<close>.
\<close>

definition estimateTokens :: "string \<Rightarrow> nat" where
  "estimateTokens s = (length s + 3) div 4"

fun packChunks :: "ContentChunk list \<Rightarrow> nat \<Rightarrow> nat \<Rightarrow> ContentChunk list \<Rightarrow> ContentChunk list" where
  "packChunks [] maxTokens totalTokens selectedChunks = selectedChunks"
| "packChunks (chunk # rest) maxTokens totalTokens selectedChunks =
     (if totalTokens + tokens chunk \<le> maxTokens
      then packChunks rest maxTokens (totalTokens + tokens chunk) (selectedChunks @ [chunk])
      else selectedChunks)"

text \<open>The \<open>forEach\<close> that renders the selected chunks: \<open>content\<close> and \<open>lastType\<close>.\<close>

definition renderChunk :: "string \<times> chunk_type option \<Rightarrow> ContentChunk \<Rightarrow> string \<times> chunk_type option" where
  "renderChunk acc chunk =
     (let content = fst acc; lastType = snd acc;
          content1 = (if lastType \<noteq> None \<and> lastType \<noteq> Some (ctype chunk)
                      then content @ [CHR 0x0A, CHR 0x0A] else content);
          content2 =
            (if ctype chunk = Heading then content1 @ [CHR 0x0A] @ ''## '' @ chunk_text chunk @ [CHR 0x0A]
             else if ctype chunk = Code
               then content1 @ [CHR 0x0A] @ ''```'' @ [CHR 0x0A] @ chunk_text chunk @ [CHR 0x0A]
                      @ ''```'' @ [CHR 0x0A]
             else if ctype chunk = Quote then content1 @ [CHR 0x0A] @ ''> '' @ chunk_text chunk @ [CHR 0x0A]
             else content1 @ chunk_text chunk @ [CHR 0x0A])
      in (content2, Some (ctype chunk)))"

definition buildOptimizedContent :: "ContentChunk list \<Rightarrow> nat \<Rightarrow> string" where
  "buildOptimizedContent chunks maxTokens =
     trim (fst (foldl renderChunk ([], None) (packChunks chunks maxTokens 0 [])))"

definition total_tokens :: "ContentChunk list \<Rightarrow> nat" where
  "total_tokens cs = sum_list (map tokens cs)"

section \<open>JSON.parse\<close>

text \<open>
  The value \<open>JSON.parse\<close> builds. A string value is its list of UTF-16 code units, since
  a \<open>\u\<close> escape may give a unit above 255; a number is kept exactly, as a mantissa and a
  power of ten; an object keeps its members in the order read, and a repeated key counts
  with its last value.
\<close>

datatype json =
    JNull
  | JBool bool
  | JNumber int int
  | JString "nat list"
  | JArray "json list"
  | JObject "(nat list \<times> json) list"

definition units :: "string \<Rightarrow> nat list" where
  "units s = map of_char s"

datatype token =
    TLBrace | TRBrace | TLBracket | TRBracket | TColon | TComma
  | TString "nat list"
  | TWord string

text \<open>The scanner reads one character at a time: between tokens, inside a word (a
  number or a literal name), inside a string, after a backslash, inside a \<open>\u\<close> escape.\<close>

datatype lex_mode =
    Between
  | InWord string
  | InString "nat list"
  | InEscape "nat list"
  | InUnicode "nat list" "nat list"

definition is_json_space :: "char \<Rightarrow> bool" where
  "is_json_space c = (of_char c \<in> {9, 10, 13, 32 :: nat})"

definition punctuation :: "char \<Rightarrow> token option" where
  "punctuation c =
     (if c = CHR ''{'' then Some TLBrace else if c = CHR ''}'' then Some TRBrace
      else if c = CHR ''['' then Some TLBracket else if c = CHR '']'' then Some TRBracket
      else if c = CHR '':'' then Some TColon else if c = CHR '','' then Some TComma
      else None)"

definition hex_value :: "char \<Rightarrow> nat option" where
  "hex_value c =
     (let n = of_char c :: nat in
      if 48 \<le> n \<and> n \<le> 57 then Some (n - 48)
      else if 65 \<le> n \<and> n \<le> 70 then Some (n - 55)
      else if 97 \<le> n \<and> n \<le> 102 then Some (n - 87)
      else None)"

definition escape_value :: "char \<Rightarrow> nat option" where
  "escape_value c =
     (if c = CHR 0x22 then Some 34 else if c = CHR 0x5C then Some 92 else if c = CHR ''/'' then Some 47
      else if c = CHR ''b'' then Some 8 else if c = CHR ''f'' then Some 12
      else if c = CHR ''n'' then Some 10 else if c = CHR ''r'' then Some 13
      else if c = CHR ''t'' then Some 9 else None)"

definition lex_start :: "char \<Rightarrow> token list \<Rightarrow> (lex_mode \<times> token list) option" where
  "lex_start c toks =
     (if is_json_space c then Some (Between, toks)
      else if c = CHR 0x22 then Some (InString [], toks)
      else case punctuation c of
             Some t \<Rightarrow> Some (Between, toks @ [t])
           | None \<Rightarrow> Some (InWord [c], toks))"

fun lex_step :: "lex_mode \<times> token list \<Rightarrow> char \<Rightarrow> (lex_mode \<times> token list) option" where
  "lex_step (Between, toks) c = lex_start c toks"
| "lex_step (InWord w, toks) c =
     (if is_json_space c \<or> c = CHR 0x22 \<or> punctuation c \<noteq> None then lex_start c (toks @ [TWord w])
      else Some (InWord (w @ [c]), toks))"
| "lex_step (InString s, toks) c =
     (if c = CHR 0x22 then Some (Between, toks @ [TString s])
      else if c = CHR 0x5C then Some (InEscape s, toks)
      else if (of_char c :: nat) < 32 then None
      else Some (InString (s @ [of_char c]), toks))"
| "lex_step (InEscape s, toks) c =
     (if c = CHR ''u'' then Some (InUnicode s [], toks)
      else case escape_value c of
             Some u \<Rightarrow> Some (InString (s @ [u]), toks)
           | None \<Rightarrow> None)"
| "lex_step (InUnicode s hs, toks) c =
     (case hex_value c of
        None \<Rightarrow> None
      | Some h \<Rightarrow>
          if length hs = 3 then Some (InString (s @ [foldl (\<lambda>acc d. 16 * acc + d) 0 (hs @ [h])]), toks)
          else Some (InUnicode s (hs @ [h]), toks))"

fun lex_all :: "lex_mode \<times> token list \<Rightarrow> string \<Rightarrow> (lex_mode \<times> token list) option" where
  "lex_all st [] = Some st"
| "lex_all st (c # cs) = (case lex_step st c of None \<Rightarrow> None | Some st' \<Rightarrow> lex_all st' cs)"

definition tokenize :: "string \<Rightarrow> token list option" where
  "tokenize s =
     (case lex_all (Between, []) s of
        Some (Between, toks) \<Rightarrow> Some toks
      | Some (InWord w, toks) \<Rightarrow> Some (toks @ [TWord w])
      | _ \<Rightarrow> None)"

text \<open>
  A number: an optional minus, \<open>0\<close> or a digit from 1 to 9 followed by digits, an optional
  fraction, an optional exponent. Its value is the mantissa times ten to the exponent.
\<close>

definition is_digit :: "char \<Rightarrow> bool" where
  "is_digit c = (let n = of_char c :: nat in 48 \<le> n \<and> n \<le> 57)"

definition digits_value :: "string \<Rightarrow> int" where
  "digits_value ds = foldl (\<lambda>acc c. 10 * acc + (int (of_char c) - 48)) 0 ds"

definition parse_exponent :: "string \<Rightarrow> int option" where
  "parse_exponent r =
     (case r of
        [] \<Rightarrow> Some 0
      | c # r1 \<Rightarrow>
          if c = CHR ''e'' \<or> c = CHR ''E'' then
            (let negative = (r1 \<noteq> [] \<and> hd r1 = CHR ''-'');
                 ds = (if r1 \<noteq> [] \<and> (hd r1 = CHR ''-'' \<or> hd r1 = CHR ''+'') then tl r1 else r1)
             in if ds \<noteq> [] \<and> list_all is_digit ds
                then Some (if negative then - digits_value ds else digits_value ds)
                else None)
          else None)"

definition parse_number :: "string \<Rightarrow> (int \<times> int) option" where
  "parse_number w =
     (let negative = (w \<noteq> [] \<and> hd w = CHR ''-'');
          r0 = (if negative then tl w else w);
          ip = takeWhile is_digit r0;
          r1 = dropWhile is_digit r0;
          hasFraction = (r1 \<noteq> [] \<and> hd r1 = CHR ''.'');
          fp = (if hasFraction then takeWhile is_digit (tl r1) else []);
          r2 = (if hasFraction then dropWhile is_digit (tl r1) else r1)
      in if ip = [] \<or> (hd ip = CHR ''0'' \<and> length ip \<noteq> 1) \<or> (hasFraction \<and> fp = []) then None
         else case parse_exponent r2 of
                None \<Rightarrow> None
              | Some e \<Rightarrow>
                  Some (if negative then - digits_value (ip @ fp) else digits_value (ip @ fp),
                        e - int (length fp)))"

definition word_value :: "string \<Rightarrow> json option" where
  "word_value w =
     (if w = ''true'' then Some (JBool True)
      else if w = ''false'' then Some (JBool False)
      else if w = ''null'' then Some JNull
      else map_option (\<lambda>(m, e). JNumber m e) (parse_number w))"

text \<open>
  The parser keeps a stack of the arrays and objects that are open (an object with the
  key that waits for its value) and what it expects next.
\<close>

datatype frame =
    ArrayFrame "json list"
  | ObjectFrame "(nat list \<times> json) list" "nat list option"

datatype expect =
    ExpectValue
  | ExpectValueOrClose
  | ExpectKeyOrClose
  | ExpectKey
  | ExpectColon
  | ExpectCommaOrClose
  | Complete json

fun push_value :: "json \<Rightarrow> frame list \<Rightarrow> (frame list \<times> expect) option" where
  "push_value v [] = Some ([], Complete v)"
| "push_value v (ArrayFrame es # fs) = Some (ArrayFrame (es @ [v]) # fs, ExpectCommaOrClose)"
| "push_value v (ObjectFrame ms (Some k) # fs) = Some (ObjectFrame (ms @ [(k, v)]) None # fs, ExpectCommaOrClose)"
| "push_value v (ObjectFrame ms None # fs) = None"

fun start_value :: "frame list \<Rightarrow> token \<Rightarrow> (frame list \<times> expect) option" where
  "start_value stack TLBrace = Some (ObjectFrame [] None # stack, ExpectKeyOrClose)"
| "start_value stack TLBracket = Some (ArrayFrame [] # stack, ExpectValueOrClose)"
| "start_value stack (TString s) = push_value (JString s) stack"
| "start_value stack (TWord w) = (case word_value w of None \<Rightarrow> None | Some v \<Rightarrow> push_value v stack)"
| "start_value stack _ = None"

fun close_array :: "frame list \<Rightarrow> (frame list \<times> expect) option" where
  "close_array (ArrayFrame es # fs) = push_value (JArray es) fs"
| "close_array _ = None"

fun close_object :: "frame list \<Rightarrow> (frame list \<times> expect) option" where
  "close_object (ObjectFrame ms None # fs) = push_value (JObject ms) fs"
| "close_object _ = None"

fun take_key :: "frame list \<Rightarrow> token \<Rightarrow> (frame list \<times> expect) option" where
  "take_key (ObjectFrame ms None # fs) (TString k) = Some (ObjectFrame ms (Some k) # fs, ExpectColon)"
| "take_key _ _ = None"

fun parse_step :: "frame list \<times> expect \<Rightarrow> token \<Rightarrow> (frame list \<times> expect) option" where
  "parse_step (stack, ExpectValue) t = start_value stack t"
| "parse_step (stack, ExpectValueOrClose) t =
     (if t = TRBracket then close_array stack else start_value stack t)"
| "parse_step (stack, ExpectKeyOrClose) t =
     (if t = TRBrace then close_object stack else take_key stack t)"
| "parse_step (stack, ExpectKey) t = take_key stack t"
| "parse_step (stack, ExpectColon) t = (if t = TColon then Some (stack, ExpectValue) else None)"
| "parse_step (stack, ExpectCommaOrClose) t =
     (case stack of
        ArrayFrame es # fs \<Rightarrow>
          if t = TComma then Some (stack, ExpectValue)
          else if t = TRBracket then close_array stack else None
      | ObjectFrame ms k # fs \<Rightarrow>
          if t = TComma then Some (stack, ExpectKey)
          else if t = TRBrace then close_object stack else None
      | [] \<Rightarrow> None)"
| "parse_step (stack, Complete v) t = None"

fun parse_all :: "frame list \<times> expect \<Rightarrow> token list \<Rightarrow> (frame list \<times> expect) option" where
  "parse_all st [] = Some st"
| "parse_all st (t # ts) = (case parse_step st t of None \<Rightarrow> None | Some st' \<Rightarrow> parse_all st' ts)"

text \<open>\<open>JSON.parse(text)\<close>: \<open>None\<close> stands for the \<open>SyntaxError\<close>.\<close>

definition JSON_parse :: "string \<Rightarrow> json option" where
  "JSON_parse s =
     (case tokenize s of
        None \<Rightarrow> None
      | Some toks \<Rightarrow>
          (case parse_all ([], ExpectValue) toks of
             Some ([], Complete v) \<Rightarrow> Some v
           | _ \<Rightarrow> None))"

text \<open>
  \<open>!v\<close> is false for a parsed value unless it is \<open>null\<close>, \<open>false\<close>, the empty string or a
  number that is zero as a double: zero itself, or of magnitude at most \<open>2^-1075\<close>, which
  rounds to zero.
\<close>

definition rounds_to_zero :: "int \<Rightarrow> int \<Rightarrow> bool" where
  "rounds_to_zero m e =
     (if e \<ge> 0 then m = 0 else \<bar>m\<bar> * 2 ^ 1075 \<le> 10 ^ nat (- e))"

fun truthy :: "json \<Rightarrow> bool" where
  "truthy JNull = False"
| "truthy (JBool b) = b"
| "truthy (JNumber m e) = (\<not> rounds_to_zero m e)"
| "truthy (JString s) = (s \<noteq> [])"
| "truthy (JArray es) = True"
| "truthy (JObject ms) = True"

text \<open>\<open>v.name\<close> for one of the names the code reads (\<open>thought\<close>, \<open>action\<close>, \<open>done\<close>,
  \<open>type\<close>, \<open>choices\<close>, \<open>message\<close>, \<open>content\<close>, \<open>thinking\<close>, \<open>text\<close>): the member of an
  object, and \<open>undefined\<close> on every other value.\<close>

fun get_prop :: "json \<Rightarrow> string \<Rightarrow> json option" where
  "get_prop (JObject ms) name = map_of (rev ms) (units name)"
| "get_prop _ name = None"

section \<open>Model gateway (backend/aiClient.ts)\<close>

text \<open>
  A thrown value: an \<open>Error\<close> object with its \<open>name\<close> and \<open>message\<close>, or a value that
  is not an \<open>Error\<close>, of which only its truthiness is read.
\<close>

datatype thrown =
    JsError string string
  | NonError bool

record 'a retry_result =
  outcome :: "thrown + 'a"
  calls :: nat
  delays :: "int list"

text \<open>The test under "Don't retry on user cancellation or auth errors".\<close>

fun rethrown_at_once :: "thrown \<Rightarrow> bool" where
  "rethrown_at_once (JsError name message) =
     (name = ''AbortError'' \<or> str_includes message ''401'' \<or> str_includes message ''403'')"
| "rethrown_at_once (NonError b) = False"

text \<open>\<open>lastError || new Error('Max retries exceeded')\<close>.\<close>

fun or_max_retries :: "thrown option \<Rightarrow> thrown" where
  "or_max_retries None = JsError ''Error'' ''Max retries exceeded''"
| "or_max_retries (Some (NonError False)) = JsError ''Error'' ''Max retries exceeded''"
| "or_max_retries (Some e) = e"

text \<open>
  The \<open>for\<close> loop of \<open>retryWithBackoff\<close> from \<open>attempt\<close> on. \<open>fn k\<close> is what the
  \<open>k\<close>-th call of the wrapped function gives: a value or a thrown error. The test
  \<open>attempt < maxRetries - 1\<close> is written \<open>attempt + 1 < maxRetries\<close> on naturals. The
  result records the slept delays and the number of calls made.
\<close>

function retry_loop ::
  "(nat \<Rightarrow> thrown + 'a) \<Rightarrow> nat \<Rightarrow> int \<Rightarrow> nat \<Rightarrow> thrown option \<Rightarrow> int list \<Rightarrow> 'a retry_result" where
  "retry_loop fn maxRetries baseDelay attempt lastError slept =
     (if attempt < maxRetries then
        (case fn attempt of
           Inr v \<Rightarrow> \<lparr> outcome = Inr v, calls = attempt + 1, delays = slept \<rparr>
         | Inl e \<Rightarrow>
             if rethrown_at_once e then \<lparr> outcome = Inl e, calls = attempt + 1, delays = slept \<rparr>
             else if attempt + 1 < maxRetries
               then retry_loop fn maxRetries baseDelay (attempt + 1) (Some e)
                      (slept @ [baseDelay * 2 ^ attempt])
               else retry_loop fn maxRetries baseDelay (attempt + 1) (Some e) slept)
      else \<lparr> outcome = Inl (or_max_retries lastError), calls = attempt, delays = slept \<rparr>)"
  by pat_completeness auto
termination
  by (relation "measure (\<lambda>(fn, maxRetries, baseDelay, attempt, lastError, slept). maxRetries - attempt)")
    auto

declare retry_loop.simps [simp del]

definition retryWithBackoff :: "(nat \<Rightarrow> thrown + 'a) \<Rightarrow> nat \<Rightarrow> int \<Rightarrow> 'a retry_result" where
  "retryWithBackoff fn maxRetries baseDelay = retry_loop fn maxRetries baseDelay 0 None []"

text \<open>
  What one \<open>fetch\<close> gives: a rejection (network failure, abort) or a response. Of a
  response the code reads the status, whether \<open>res.body\<close> is set, and the body through
  \<open>res.text()\<close> or \<open>res.json()\<close>: reading it may fail, and for a text that is not JSON
  \<open>res.json()\<close> rejects with a \<open>SyntaxError\<close> whose message the engine builds.
\<close>

record http_response =
  status_code :: nat
  has_body :: bool
  body_read :: "thrown + string"
  json_error :: string

datatype fetch_result =
    FetchRejected thrown
  | FetchResponse http_response

text \<open>The providers of \<open>DEFAULT_PROVIDERS\<close>, by name; \<open>callAI\<close> takes its provider from
  this list.\<close>

definition provider_names :: "string list" where
  "provider_names = [''Jarvis'', ''OpenRouter'', ''OpenAI'', ''Gemini'', ''Moonshot AI (Global)'',
     ''Moonshot AI (China)'']"

text \<open>The error \<open>callAI\<close> throws for a response that is not \<open>ok\<close>.\<close>

definition status_error :: "string \<Rightarrow> nat \<Rightarrow> string \<Rightarrow> thrown" where
  "status_error providerName status body =
     (if status = 401 then
        JsError ''Error'' (''Authentication failed: Invalid API key for '' @ providerName)
      else if status = 403 then
        JsError ''Error''
          (''Access forbidden: Please check your API key permissions for '' @ providerName)
      else if status = 429 then
        JsError ''Error'' (''Rate limit exceeded for '' @ providerName @ ''. Please try again later.'')
      else if status \<ge> 500 then
        JsError ''Error''
          (providerName @ '' server error ('' @ show_nat status @ ''). Please try again.'')
      else
        JsError ''Error''
          (''AI API error ('' @ providerName @ ''): '' @ show_nat status @ '' '' @ take 200 body))"

text \<open>
  What \<open>parseRegularResponse\<close> keeps of the reply: the content and the thinking text of
  the assistant message (either may be \<open>undefined\<close>) and the raw output. The message id
  and its creation time, which come from a random generator and the clock, are left out.
\<close>

record ai_reply =
  reply_content :: "json option"
  reply_thinking :: "json option"
  rawModelOutput :: json

text \<open>\<open>v?.[0]\<close>: the first element of an array, the first unit of a string, the member
  \<open>0\<close> of an object, and \<open>undefined\<close> otherwise.\<close>

fun first_entry :: "json \<Rightarrow> json option" where
  "first_entry (JArray es) = (case es of [] \<Rightarrow> None | e # rest \<Rightarrow> Some e)"
| "first_entry (JString s) = (case s of [] \<Rightarrow> None | c # rest \<Rightarrow> Some (JString [c]))"
| "first_entry (JObject ms) = get_prop (JObject ms) ''0''"
| "first_entry _ = None"

text \<open>\<open>blocks.find(block => block.type === ty)\<close>: reading \<open>type\<close> of a \<open>null\<close> block is a
  \<open>TypeError\<close>.\<close>

fun find_block :: "string \<Rightarrow> json list \<Rightarrow> thrown + json option" where
  "find_block ty [] = Inr None"
| "find_block ty (block # rest) =
     (if block = JNull then Inl (JsError ''TypeError'' ''Cannot read properties of null (reading 'type')'')
      else if get_prop block ''type'' = Some (JString (units ty)) then Inr (Some block)
      else find_block ty rest)"

definition parseRegularResponse :: "json \<Rightarrow> thrown + ai_reply" where
  "parseRegularResponse parsed =
     (if parsed = JNull then
        Inl (JsError ''TypeError'' ''Cannot read properties of null (reading 'choices')'')
      else
        let assistantMessage =
              (case get_prop parsed ''choices'' of
                 None \<Rightarrow> None
               | Some choices \<Rightarrow>
                   (case first_entry choices of
                      None \<Rightarrow> None
                    | Some choice \<Rightarrow> get_prop choice ''message''))
        in case assistantMessage of
             None \<Rightarrow> Inl (JsError ''Error'' ''AI API: no choices[0].message in response'')
           | Some msg \<Rightarrow>
               if \<not> truthy msg then Inl (JsError ''Error'' ''AI API: no choices[0].message in response'')
               else
                 (case get_prop msg ''content'' of
                    Some (JArray blocks) \<Rightarrow>
                      (case find_block ''thinking'' blocks of
                         Inl e \<Rightarrow> Inl e
                       | Inr thinkingBlock \<Rightarrow>
                           (case find_block ''text'' blocks of
                              Inl e \<Rightarrow> Inl e
                            | Inr textBlock \<Rightarrow>
                                Inr \<lparr> reply_content =
                                        Some (case textBlock of
                                                None \<Rightarrow> JString []
                                              | Some b \<Rightarrow>
                                                  (case get_prop b ''text'' of
                                                     None \<Rightarrow> JString []
                                                   | Some t \<Rightarrow> if truthy t then t else JString [])),
                                      reply_thinking =
                                        (case thinkingBlock of
                                           None \<Rightarrow> None
                                         | Some b \<Rightarrow> get_prop b ''thinking''),
                                      rawModelOutput = parsed \<rparr>))
                  | c \<Rightarrow> Inr \<lparr> reply_content = c, reply_thinking = None, rawModelOutput = parsed \<rparr>))"

text \<open>
  The function \<open>callAI\<close> passes to \<open>retryWithBackoff\<close>, for what the \<open>fetch\<close> gives:
  \<open>res.ok\<close> is a status from 200 to 299, and \<open>stream\<close> is \<open>request.stream\<close>.
\<close>

definition request_once :: "bool \<Rightarrow> string \<Rightarrow> fetch_result \<Rightarrow> thrown + ai_reply" where
  "request_once stream providerName r =
     (case r of
        FetchRejected e \<Rightarrow> Inl e
      | FetchResponse res \<Rightarrow>
          if \<not> (200 \<le> status_code res \<and> status_code res \<le> 299) then
            (case body_read res of
               Inl e \<Rightarrow> Inl e
             | Inr body \<Rightarrow> Inl (status_error providerName (status_code res) body))
          else if stream \<and> has_body res then
            Inl (JsError ''Error'' ''Streaming not yet implemented in this context'')
          else
            (case body_read res of
               Inl e \<Rightarrow> Inl e
             | Inr body \<Rightarrow>
                 (case JSON_parse body of
                    None \<Rightarrow> Inl (JsError ''SyntaxError'' (json_error res))
                  | Some parsed \<Rightarrow> parseRegularResponse parsed)))"

text \<open>Step 9 of \<open>callAI\<close>: the request with retry, and the \<open>catch\<close> that renames a
  cancellation. \<open>fetches k\<close> is what the \<open>k\<close>-th \<open>fetch\<close> gives.\<close>

definition callAI :: "bool \<Rightarrow> string \<Rightarrow> (nat \<Rightarrow> fetch_result) \<Rightarrow> ai_reply retry_result" where
  "callAI stream providerName fetches =
     (let r = retryWithBackoff (\<lambda>k. request_once stream providerName (fetches k)) 3 1000 in
      case outcome r of
        Inl (JsError name message) \<Rightarrow>
          if name = ''AbortError'' then r\<lparr> outcome := Inl (JsError ''Error'' ''Request cancelled by user'') \<rparr>
          else r
      | _ \<Rightarrow> r)"

section \<open>Context cache (backend/contextCache.ts)\<close>

text \<open>The fields of \<open>PageContext\<close> that the cache and the agent loop read.\<close>

record PageContext =
  url :: string
  title :: string
  mainContentSnippet :: "string option"
  hash :: "string option"

record CachedContext =
  cached_context :: PageContext
  cached_timestamp :: int
  cached_url :: string
  cached_tabId :: int

text \<open>A pending \<open>setTimeout\<close>: the time it is due and the \<open>context.url\<close> and \<open>tabId\<close>
  its callback captured.\<close>

record timer =
  due :: int
  timer_url :: string
  timer_tabId :: int

text \<open>
  The service and what it runs in: the \<open>Map\<close>, the timers that \<open>set\<close> has scheduled
  and that have not fired yet, and the value of \<open>Date.now()\<close>.
\<close>

record cache_world =
  cache :: "string \<rightharpoonup> CachedContext"
  timers :: "timer list"
  clock :: int

definition defaultTTL :: int where
  "defaultTTL = 30000"

definition getCacheKey :: "string \<Rightarrow> int \<Rightarrow> string" where
  "getCacheKey u tabId = show_int tabId @ '':'' @ u"

text \<open>
  The delay \<open>setTimeout\<close> uses: its argument is converted to a 32-bit signed integer,
  and a negative delay counts as 0.
\<close>

definition timer_delay :: "int \<Rightarrow> int" where
  "timer_delay ms = max 0 (sint (word_of_int ms :: 32 word))"

text \<open>\<open>x || defaultTTL\<close> for an optional number: absent and 0 give the default.\<close>

definition or_default :: "int option \<Rightarrow> int" where
  "or_default x = (case x of None \<Rightarrow> defaultTTL | Some v \<Rightarrow> if v = 0 then defaultTTL else v)"

definition cache_delete :: "cache_world \<Rightarrow> string \<Rightarrow> int \<Rightarrow> cache_world" where
  "cache_delete w u tabId = w\<lparr> cache := (cache w)(getCacheKey u tabId := None) \<rparr>"

definition cache_set :: "cache_world \<Rightarrow> PageContext \<Rightarrow> int \<Rightarrow> int option \<Rightarrow> cache_world" where
  "cache_set w ctx tabId ttl =
     (let key = getCacheKey (url ctx) tabId in
      w\<lparr> cache := (cache w)(key \<mapsto>
              \<lparr> cached_context = ctx, cached_timestamp = clock w, cached_url = url ctx, cached_tabId = tabId \<rparr>),
         timers := timers w @
              [\<lparr> due = clock w + timer_delay (or_default ttl), timer_url = url ctx, timer_tabId = tabId \<rparr>] \<rparr>)"

definition cache_get :: "cache_world \<Rightarrow> string \<Rightarrow> int \<Rightarrow> int option \<Rightarrow> PageContext option \<times> cache_world" where
  "cache_get w u tabId maxAge =
     (let key = getCacheKey u tabId in
      case cache w key of
        None \<Rightarrow> (None, w)
      | Some cached \<Rightarrow>
          (let age = clock w - cached_timestamp cached; limit = or_default maxAge in
           if age > limit then (None, w\<lparr> cache := (cache w)(key := None) \<rparr>)
           else (Some (cached_context cached), w)))"

definition clearTab :: "cache_world \<Rightarrow> int \<Rightarrow> cache_world" where
  "clearTab w tabId =
     w\<lparr> cache := (\<lambda>key. case cache w key of
                        None \<Rightarrow> None
                      | Some v \<Rightarrow> if cached_tabId v = tabId then None else Some v) \<rparr>"

definition clearAll :: "cache_world \<Rightarrow> cache_world" where
  "clearAll w = w\<lparr> cache := Map.empty \<rparr>"

definition hasChanged :: "cache_world \<Rightarrow> string \<Rightarrow> int \<Rightarrow> string \<Rightarrow> bool \<times> cache_world" where
  "hasChanged w u tabId newHash =
     (case cache_get w u tabId None of
        (None, w') \<Rightarrow> (True, w')
      | (Some cached, w') \<Rightarrow>
          (case hash cached of
             None \<Rightarrow> (True, w')
           | Some h \<Rightarrow> (if h = [] then True else h \<noteq> newHash, w')))"

text \<open>
  Time passing while the current task runs: \<open>Date.now()\<close> grows and no timer callback
  runs, since callbacks only run between tasks.
\<close>

definition elapse :: "cache_world \<Rightarrow> int \<Rightarrow> cache_world" where
  "elapse w ms = w\<lparr> clock := clock w + ms \<rparr>"

text \<open>
  The event loop between two tasks: every pending timer that is due fires. Each callback
  is \<open>this.delete(context.url, tabId)\<close>, so the order in which they fire makes no
  difference; they are run in the order they were scheduled.
\<close>

definition fire :: "cache_world \<Rightarrow> timer \<Rightarrow> cache_world" where
  "fire w t = cache_delete w (timer_url t) (timer_tabId t)"

definition runDueTimers :: "cache_world \<Rightarrow> cache_world" where
  "runDueTimers w =
     foldl fire (w\<lparr> timers := filter (\<lambda>t. \<not> due t \<le> clock w) (timers w) \<rparr>)
       (filter (\<lambda>t. due t \<le> clock w) (timers w))"

text \<open>A fresh service at time \<open>now\<close>.\<close>

definition new_cache :: "int \<Rightarrow> cache_world" where
  "new_cache now = \<lparr> cache = Map.empty, timers = [], clock = now \<rparr>"

text \<open>The calls a client can make between a \<open>set\<close> and a later \<open>get\<close>, and the passing of time.\<close>

datatype cache_op =
    OpSet PageContext int "int option"
  | OpGet string int "int option"
  | OpDelete string int
  | OpClearTab int
  | OpClearAll
  | OpHasChanged string int string
  | OpElapse int
  | OpRunDueTimers

fun apply_cache_op :: "cache_world \<Rightarrow> cache_op \<Rightarrow> cache_world" where
  "apply_cache_op w (OpSet ctx tabId ttl) = cache_set w ctx tabId ttl"
| "apply_cache_op w (OpGet u tabId maxAge) = snd (cache_get w u tabId maxAge)"
| "apply_cache_op w (OpDelete u tabId) = cache_delete w u tabId"
| "apply_cache_op w (OpClearTab tabId) = clearTab w tabId"
| "apply_cache_op w OpClearAll = clearAll w"
| "apply_cache_op w (OpHasChanged u tabId h) = snd (hasChanged w u tabId h)"
| "apply_cache_op w (OpElapse ms) = elapse w ms"
| "apply_cache_op w OpRunDueTimers = runDueTimers w"

text \<open>Whether an operation stores the key again.\<close>

fun sets_key :: "string \<Rightarrow> cache_op \<Rightarrow> bool" where
  "sets_key key (OpSet ctx tabId ttl) = (getCacheKey (url ctx) tabId = key)"
| "sets_key key _ = False"

text \<open>The key a timer's callback deletes.\<close>

definition timer_key :: "timer \<Rightarrow> string" where
  "timer_key t = getCacheKey (timer_url t) (timer_tabId t)"

text \<open>The timer of a \<open>set\<close> is still pending, or the key is gone.\<close>

definition timer_guards :: "timer \<Rightarrow> cache_world \<Rightarrow> bool" where
  "timer_guards t w = (t \<in> set (timers w) \<or> cache w (timer_key t) = None)"

section \<open>Agent run loop (ui/components/AgentController.tsx)\<close>

text \<open>
  The messages the loop receives, and what a \<open>chrome.runtime.sendMessage\<close> call can give:
  \<open>chrome.runtime.lastError\<close> (the promise is rejected with its message) or a response.
\<close>

datatype BackendToFrontendMessage =
    ERROR string
  | AGENT_STEP AgentStep
  | PAGE_CONTEXT PageContext
  | AGENT_ACTION_RESULT ActionResult
  | OTHER_MESSAGE

datatype 'a sent = LastError string | Response 'a

text \<open>The privileged navigation: an active tab is updated, there is no active tab, or
  \<open>chrome.tabs\<close> throws.\<close>

datatype nav_outcome = TabUpdated | NoActiveTab | NavThrows string

text \<open>\<open>GET_PAGE_CONTEXT\<close> is sent with \<open>resolve\<close> as its callback: the response may be
  \<open>undefined\<close>.\<close>

datatype context_reply = ContextUndefined | ContextMessage BackendToFrontendMessage

text \<open>The answer to \<open>EXECUTE_AGENT_ACTION\<close>: \<open>lastError\<close>, an \<open>ERROR\<close> message, or the
  \<open>ActionResult\<close> payload of the content script's \<open>executeAction\<close>.\<close>

datatype exec_reply = ExecLastError string | ExecError string | ExecResult ActionResult

text \<open>
  What the surroundings do during one iteration: the value of \<open>abortRef.current\<close> when
  the loop condition is evaluated (\<open>handleStop\<close> sets it), and the outcome of each request
  the iteration may make.
\<close>

record round =
  abortRequested :: bool
  stepReply :: "BackendToFrontendMessage sent"
  navReply :: nav_outcome
  execReply :: exec_reply
  contextReply :: context_reply

text \<open>
  The variables of \<open>runAgentLoop\<close> and the component state it writes; \<open>modelRequests\<close>
  counts the \<open>RUN_AGENT_STEP\<close> messages sent and \<open>tabUpdates\<close> lists the URLs given to
  \<open>chrome.tabs.update\<close>.
\<close>

record loop_state =
  currentSteps :: "AgentStep list"
  currentContext :: PageContext
  agentState :: "AgentState option"
  errorShown :: "string option"
  modelRequests :: nat
  tabUpdates :: "string list"

datatype loop_exit = ExitAborted | ExitMaxSteps | ExitDone | ExitError string

datatype iteration_result = Continue loop_state | Break loop_exit loop_state

text \<open>\<open>setAgentState(prev => prev ? f(prev) : null)\<close>.\<close>

definition setAgentState :: "(AgentState \<Rightarrow> AgentState) \<Rightarrow> loop_state \<Rightarrow> loop_state" where
  "setAgentState f st = st\<lparr> agentState := map_option f (agentState st) \<rparr>"

text \<open>The \<open>catch\<close> of the loop body for \<open>new Error(message)\<close>; \<open>String(err)\<close> of an error
  with an empty message is \<open>Error\<close>.\<close>

definition catchError :: "string \<Rightarrow> loop_state \<Rightarrow> iteration_result" where
  "catchError message st =
     Break (ExitError message)
       (setAgentState (\<lambda>prev. prev\<lparr> isRunning := False, state_error := Some message \<rparr>)
          (st\<lparr> errorShown := Some (if message = [] then ''Error'' else message) \<rparr>))"

definition is_done :: "BrowserAction \<Rightarrow> bool" where
  "is_done a = (case a of Done summary \<Rightarrow> True | _ \<Rightarrow> False)"

definition success_result :: ActionResult where
  "success_result = \<lparr> success = True, error = None, data = None, screenshot = None \<rparr>"

definition failure_result :: "string \<Rightarrow> ActionResult" where
  "failure_result message = \<lparr> success = False, error = Some message, data = None, screenshot = None \<rparr>"

text \<open>"Step 3" of the body: the step is recorded with its result, then the page context
  is refreshed.\<close>

definition recordAndRefresh :: "AgentStep \<Rightarrow> ActionResult \<Rightarrow> round \<Rightarrow> loop_state \<Rightarrow> iteration_result" where
  "recordAndRefresh step actionResult r st =
     (let steps' = currentSteps st @ [step\<lparr> result := Some actionResult \<rparr>];
          st1 = setAgentState (\<lambda>prev. prev\<lparr> steps := steps', stepCount := length steps' \<rparr>)
                  (st\<lparr> currentSteps := steps' \<rparr>)
      in case contextReply r of
           ContextUndefined \<Rightarrow>
             catchError ''Cannot read properties of undefined (reading 'type')'' st1
         | ContextMessage (PAGE_CONTEXT ctx) \<Rightarrow> Continue (st1\<lparr> currentContext := ctx \<rparr>)
         | ContextMessage _ \<Rightarrow> Continue st1)"

text \<open>One evaluation of the \<open>while\<close> condition and, when it holds, one run of the body.\<close>

definition loopIteration :: "nat \<Rightarrow> loop_state \<Rightarrow> round \<Rightarrow> iteration_result" where
  "loopIteration stepLimit st r =
     (if abortRequested r then Break ExitAborted st
      else if \<not> length (currentSteps st) < stepLimit then Break ExitMaxSteps st
      else
        let st0 = st\<lparr> modelRequests := modelRequests st + 1 \<rparr> in
        case stepReply r of
          LastError message \<Rightarrow> catchError message st0
        | Response (ERROR message) \<Rightarrow> catchError message st0
        | Response (AGENT_STEP step) \<Rightarrow>
            if is_done (action step) then
              (let steps' = currentSteps st0 @ [step\<lparr> result := Some success_result \<rparr>] in
               Break ExitDone
                 (setAgentState
                    (\<lambda>prev. prev\<lparr> steps := steps', stepCount := length steps', isRunning := False \<rparr>)
                    (st0\<lparr> currentSteps := steps' \<rparr>)))
            else
              (case action step of
                 Navigate u \<Rightarrow>
                   (let target = (if startsWith u ''http'' then u else ''https://'' @ u) in
                    case navReply r of
                      TabUpdated \<Rightarrow>
                        recordAndRefresh step success_result r
                          (st0\<lparr> tabUpdates := tabUpdates st0 @ [target] \<rparr>)
                    | NoActiveTab \<Rightarrow> recordAndRefresh step (failure_result ''No active tab found'') r st0
                    | NavThrows message \<Rightarrow> recordAndRefresh step (failure_result message) r st0)
               | _ \<Rightarrow>
                   (case execReply r of
                      ExecLastError message \<Rightarrow> catchError message st0
                    | ExecError message \<Rightarrow> recordAndRefresh step (failure_result message) r st0
                    | ExecResult res \<Rightarrow> recordAndRefresh step res r st0))
        | Response _ \<Rightarrow> catchError ''Unexpected response type'' st0)"

text \<open>"Mark as not running when loop ends".\<close>

definition afterLoop :: "loop_state \<Rightarrow> loop_state" where
  "afterLoop st = setAgentState (\<lambda>prev. prev\<lparr> isRunning := False \<rparr>) st"


text \<open>\<open>runAgentLoop\<close>: nothing happens for a blank task or a missing page context.\<close>

definition initialLoopState :: "string \<Rightarrow> PageContext \<Rightarrow> int \<Rightarrow> loop_state" where
  "initialLoopState task pageContext now =
     \<lparr> currentSteps = [], currentContext = pageContext,
       agentState = Some \<lparr> isRunning = True, isPaused = False, currentTask = task, steps = [],
                          stepCount = 0, maxSteps = cfg_maxSteps DEFAULT_AGENT_CONFIG,
                          startTime = now, state_error = None \<rparr>,
       errorShown = None, modelRequests = 0, tabUpdates = [] \<rparr>"


text \<open>What a round brings: a \<open>done\<close> action, or an error raised inside the body.\<close>

definition receives_done :: "round \<Rightarrow> bool" where
  "receives_done r = (case stepReply r of Response (AGENT_STEP step) \<Rightarrow> is_done (action step) | _ \<Rightarrow> False)"

definition is_navigate :: "BrowserAction \<Rightarrow> bool" where
  "is_navigate a = (case a of Navigate u \<Rightarrow> True | _ \<Rightarrow> False)"

definition raises_error :: "round \<Rightarrow> bool" where
  "raises_error r =
     (case stepReply r of
        Response (AGENT_STEP step) \<Rightarrow>
          \<not> is_done (action step)
          \<and> ((\<not> is_navigate (action step) \<and> (case execReply r of ExecLastError m \<Rightarrow> True | _ \<Rightarrow> False))
              \<or> contextReply r = ContextUndefined)
      | _ \<Rightarrow> True)"

text \<open>The state an iteration leaves behind.\<close>

fun result_state :: "iteration_result \<Rightarrow> loop_state" where
  "result_state (Continue st) = st"
| "result_state (Break e st) = st"

fun is_break :: "iteration_result \<Rightarrow> bool" where
  "is_break (Continue st) = False"
| "is_break (Break e st) = True"

section \<open>Element resolver (content/smartSelector.ts)\<close>

text \<open>
  What the resolver reads of an element: its tag name, text content, attributes, whether
  \<open>offsetParent\<close> is set, the computed style and the bounding rectangle.
\<close>

record computed_style =
  display :: string
  visibility :: string
  opacity :: string

record dom_rect =
  width :: real
  height :: real

record element =
  node_id :: nat
  tagName :: string
  textContent :: "string option"
  attributes :: "(string \<times> string) list"
  hasOffsetParent :: bool
  style :: computed_style
  rect :: dom_rect

text \<open>
  The document at one moment is what its selector engine answers: \<open>querySelectorAll\<close>
  gives the matching elements in document order, and \<open>querySelector\<close> the first match,
  null, or a \<open>SyntaxError\<close> for a string that is no selector.
\<close>

datatype dom_exception = SyntaxError

record document =
  querySelector :: "string \<Rightarrow> dom_exception + element option"
  querySelectorAll :: "string \<Rightarrow> element list"

definition isVisible :: "element \<Rightarrow> bool" where
  "isVisible el =
     (if \<not> hasOffsetParent el \<and> tagName el \<noteq> ''BODY'' \<and> tagName el \<noteq> ''HTML'' then False
      else if display (style el) = ''none'' \<or> visibility (style el) = ''hidden''
              \<or> opacity (style el) = ''0'' then False
      else if width (rect el) = 0 \<or> height (rect el) = 0 then False
      else True)"

text \<open>\<open>/^[a-z]+$/i\<close>: one or more letters A to Z in either case.\<close>

definition is_ascii_letter :: "char \<Rightarrow> bool" where
  "is_ascii_letter c = (let n = of_char c :: nat in (65 \<le> n \<and> n \<le> 90) \<or> (97 \<le> n \<and> n \<le> 122))"

definition only_letters :: "string \<Rightarrow> bool" where
  "only_letters s = (s \<noteq> [] \<and> list_all is_ascii_letter s)"

definition tryCSS :: "document \<Rightarrow> string \<Rightarrow> element option" where
  "tryCSS doc selector =
     (if startsWith selector ''.'' \<or> startsWith selector ''#'' \<or> str_includes selector ''[''
         \<or> str_includes selector ''>'' \<or> only_letters selector
      then (case querySelector doc selector of Inl ex \<Rightarrow> None | Inr found \<Rightarrow> found)
      else None)"

text \<open>\<open>el.getAttribute(name) || ''\<close> and \<open>el.textContent || ''\<close>.\<close>

definition attribute_or_empty :: "element \<Rightarrow> string \<Rightarrow> string" where
  "attribute_or_empty el name = (case map_of (attributes el) name of None \<Rightarrow> [] | Some v \<Rightarrow> v)"

definition text_or_empty :: "element \<Rightarrow> string" where
  "text_or_empty el = (case textContent el of None \<Rightarrow> [] | Some t \<Rightarrow> t)"

definition calculateMatchScore :: "string \<Rightarrow> string \<Rightarrow> real" where
  "calculateMatchScore search target =
     (if search = target then 100
      else if str_includes target search
        then 80 + (real (length search) / real (length target)) * 20
      else if str_includes search target
        then 60 + (real (length target) / real (length search)) * 20
      else
        let searchWords = split_ws search;
            targetWords = split_ws target;
            matchedWords = length (filter (\<lambda>sw. list_ex (\<lambda>tw. str_includes tw sw \<or> str_includes sw tw)
                                                    targetWords) searchWords)
        in (real matchedWords / real (length searchWords)) * 50)"

record ElementMatch =
  match_element :: element
  score :: real
  match_method :: string

definition text_selector :: string where
  \<open>text_selector = ''a, button, [role="button"], [role="link"], input[type="submit"], ''
     @ ''input[type="button"], [onclick], [tabindex], h1, h2, h3, h4, h5, h6, ''
     @ ''p, span, div, li, td, th, label''\<close>

text \<open>The \<open>for\<close> loop of \<open>findByText\<close> over the elements still to visit, with
  \<open>bestMatch\<close>; \<open>exact\<close> and \<open>visible\<close> are the two options.\<close>

fun findByText_loop ::
  "string \<Rightarrow> bool \<Rightarrow> bool \<Rightarrow> element list \<Rightarrow> ElementMatch option \<Rightarrow> element option" where
  "findByText_loop normalizedText exact visible [] bestMatch = map_option match_element bestMatch"
| "findByText_loop normalizedText exact visible (el # els) bestMatch =
     (if visible \<and> \<not> isVisible el then findByText_loop normalizedText exact visible els bestMatch
      else
        let elText = trim (toLowerCase (text_or_empty el)) in
        if exact then
          (if elText = normalizedText then Some el
           else findByText_loop normalizedText exact visible els bestMatch)
        else if str_includes elText normalizedText \<or> str_includes normalizedText elText then
          (let s = calculateMatchScore normalizedText elText in
           if (case bestMatch of None \<Rightarrow> True | Some b \<Rightarrow> s > score b)
           then findByText_loop normalizedText exact visible els
                  (Some \<lparr> match_element = el, score = s, match_method = ''text'' \<rparr>)
           else findByText_loop normalizedText exact visible els bestMatch)
        else findByText_loop normalizedText exact visible els bestMatch)"

definition findByText :: "document \<Rightarrow> string \<Rightarrow> bool \<Rightarrow> bool \<Rightarrow> element option" where
  "findByText doc txt exact visible =
     findByText_loop (trim (toLowerCase txt)) exact visible (querySelectorAll doc text_selector) None"

text \<open>The three attribute strategies share one loop: the first element, visible when
  asked for, whose attribute contains the text.\<close>

definition findByAttribute :: "document \<Rightarrow> string \<Rightarrow> string \<Rightarrow> bool \<Rightarrow> element option" where
  "findByAttribute doc name txt visible =
     (let normalizedText = trim (toLowerCase txt) in
      find (\<lambda>el. \<not> (visible \<and> \<not> isVisible el)
                  \<and> str_includes (toLowerCase (attribute_or_empty el name)) normalizedText)
        (querySelectorAll doc (''['' @ name @ '']'')))"

definition findByAriaLabel :: "document \<Rightarrow> string \<Rightarrow> bool \<Rightarrow> element option" where
  "findByAriaLabel doc txt visible = findByAttribute doc ''aria-label'' txt visible"

definition findByPlaceholder :: "document \<Rightarrow> string \<Rightarrow> bool \<Rightarrow> element option" where
  "findByPlaceholder doc txt visible = findByAttribute doc ''placeholder'' txt visible"

definition findByTitle :: "document \<Rightarrow> string \<Rightarrow> bool \<Rightarrow> element option" where
  "findByTitle doc txt visible = findByAttribute doc ''title'' txt visible"

definition findByDataAttribute :: "document \<Rightarrow> string \<Rightarrow> bool \<Rightarrow> element option" where
  "findByDataAttribute doc txt visible =
     (let normalizedText = trim (toLowerCase txt) in
      find (\<lambda>el. \<not> (visible \<and> \<not> isVisible el)
                  \<and> list_ex (\<lambda>(name, v). startsWith name ''data-''
                                \<and> str_includes (toLowerCase v) normalizedText) (attributes el))
        (querySelectorAll doc ''*''))"

definition role_selector :: "string \<Rightarrow> string" where
  \<open>role_selector role = ''[role="'' @ role @ ''"]''\<close>

definition findByRoleAndText :: "document \<Rightarrow> string \<Rightarrow> bool \<Rightarrow> element option" where
  "findByRoleAndText doc txt visible =
     (let normalizedText = trim (toLowerCase txt) in
      find (\<lambda>el. \<not> (visible \<and> \<not> isVisible el)
                  \<and> str_includes (toLowerCase (text_or_empty el)) normalizedText)
        (concat (map (\<lambda>role. querySelectorAll doc (role_selector role))
                   [''button'', ''link'', ''tab'', ''menuitem'', ''option''])))"

text \<open>The loop of \<open>smartFind\<close> over what the strategies give, in order: the first element
  that is there and, when \<open>visible\<close> is set, visible.\<close>

fun firstAccepted :: "bool \<Rightarrow> element option list \<Rightarrow> element option" where
  "firstAccepted visible [] = None"
| "firstAccepted visible (found # others) =
     (case found of
        Some el \<Rightarrow> if \<not> visible \<or> isVisible el then Some el else firstAccepted visible others
      | None \<Rightarrow> firstAccepted visible others)"

text \<open>\<open>smartFind(selector, options)\<close>; \<open>visible\<close> is the option, \<open>true\<close> when absent.\<close>

definition smartFind :: "document \<Rightarrow> string \<Rightarrow> bool option \<Rightarrow> element option" where
  "smartFind doc selector visibleOption =
     (let visible = (case visibleOption of None \<Rightarrow> True | Some v \<Rightarrow> v) in
      firstAccepted visible
        [tryCSS doc selector,
         findByText doc selector True visible,
         findByText doc selector False visible,
         findByAriaLabel doc selector visible,
         findByPlaceholder doc selector visible,
         findByTitle doc selector visible,
         findByDataAttribute doc selector visible,
         findByRoleAndText doc selector visible])"

text \<open>
  The page while \<open>waitForElement\<close> runs: the document when it is called, the document at
  each callback of the mutation observer before the timeout, and the document when the
  timeout fires.
\<close>

record page_timeline =
  initial :: document
  mutations :: "document list"
  atTimeout :: document

definition waitForElement :: "page_timeline \<Rightarrow> string \<Rightarrow> element option" where
  "waitForElement page selector =
     (case smartFind (initial page) selector None of
        Some el \<Rightarrow> Some el
      | None \<Rightarrow>
          (case List.find (\<lambda>found. found \<noteq> None) (map (\<lambda>doc. smartFind doc selector None) (mutations page)) of
             Some found \<Rightarrow> found
           | None \<Rightarrow> smartFind (atTimeout page) selector None))"

section \<open>Action executor (content/actionExecutor.ts)\<close>

text \<open>\<open>executeClick(selector, text)\<close> on a page; the second component is the element that
  was clicked.\<close>

text \<open>\<open>text || selector\<close>: the text hint when it is given and not empty.\<close>

definition click_target :: "string \<Rightarrow> string option \<Rightarrow> string" where
  "click_target selector hint = (case hint of None \<Rightarrow> selector | Some t \<Rightarrow> if t = [] then selector else t)"

definition executeClick :: "page_timeline \<Rightarrow> string \<Rightarrow> string option \<Rightarrow> ActionResult \<times> element option" where
  \<open>executeClick page selector hint =
     (let searchTerm = click_target selector hint;
          element0 = smartFind (initial page) searchTerm None;
          element1 = (case element0 of None \<Rightarrow> waitForElement page searchTerm | Some el \<Rightarrow> Some el)
      in case element1 of
           None \<Rightarrow> (failure_result (''Element not found: "'' @ searchTerm @ ''"''), None)
         | Some el \<Rightarrow> (success_result, Some el))\<close>

section \<open>Response parser (backend/agentService.ts)\<close>

text \<open>The text before and after the first occurrence of \<open>pat\<close>.\<close>

fun split_at_first :: "string \<Rightarrow> string \<Rightarrow> string \<Rightarrow> (string \<times> string) option" where
  "split_at_first pat seen [] = (if pat = [] then Some (seen, []) else None)"
| "split_at_first pat seen (c # cs) =
     (if prefix pat (c # cs) then Some (seen, drop (length pat) (c # cs))
      else split_at_first pat (seen @ [c]) cs)"

text \<open>
  The first group of the first match of the code-block pattern (three backquotes, an
  optional \<open>json\<close>, white space, the shortest text up to three backquotes). The match
  starts at the first three backquotes; taking \<open>json\<close> and all the white space that
  follows costs no match, since neither contains a backquote.
\<close>

definition codeBlock :: "string \<Rightarrow> string option" where
  "codeBlock response =
     (case split_at_first ''```'' [] response of
        None \<Rightarrow> None
      | Some (seen, rest) \<Rightarrow>
          (let rest1 = (if prefix ''json'' rest then drop 4 rest else rest);
               rest2 = dropWhile is_js_space rest1
           in map_option fst (split_at_first ''```'' [] rest2)))"

text \<open>The match of the object pattern: from the first opening brace to the last closing
  brace after it.\<close>

definition objectMatch :: "string \<Rightarrow> string option" where
  "objectMatch s =
     (let fromBrace = dropWhile (\<lambda>c. c \<noteq> CHR ''{'') s;
          upToBrace = rev (dropWhile (\<lambda>c. c \<noteq> CHR ''}'') (rev fromBrace))
      in if upToBrace = [] then None else Some upToBrace)"

text \<open>The string \<open>parseAgentResponse\<close> gives to \<open>JSON.parse\<close>.\<close>

definition jsonStr :: "string \<Rightarrow> string" where
  "jsonStr response =
     (let s0 = trim response;
          s1 = (case codeBlock response of None \<Rightarrow> s0 | Some inner \<Rightarrow> trim inner)
      in case objectMatch s1 of None \<Rightarrow> s1 | Some obj \<Rightarrow> obj)"

record AgentResponse =
  resp_thought :: json
  resp_action :: json
  resp_done :: bool

text \<open>
  \<open>parseAgentResponse(response)\<close>: \<open>None\<close> is the \<open>null\<close> returned for a missing field or
  from the \<open>catch\<close>, which also takes the \<open>TypeError\<close> of reading a property of \<open>null\<close>.
\<close>

definition validate :: "json \<Rightarrow> AgentResponse option" where
  "validate parsed =
     (if parsed = JNull then None
      else case (get_prop parsed ''thought'', get_prop parsed ''action'') of
             (Some th, Some act) \<Rightarrow>
               if \<not> truthy th \<or> \<not> truthy act then None
               else Some \<lparr> resp_thought = th, resp_action = act,
                           resp_done = (get_prop parsed ''done'' = Some (JBool True)
                                        \<or> get_prop act ''type'' = Some (JString (units ''done''))) \<rparr>
           | _ \<Rightarrow> None)"

definition parseAgentResponse :: "string \<Rightarrow> AgentResponse option" where
  "parseAgentResponse response =
     (case JSON_parse (jsonStr response) of
        None \<Rightarrow> None
      | Some parsed \<Rightarrow> validate parsed)"

section \<open>Auxiliary notions for the properties\<close>

text \<open>The text \<open>findByText\<close> compares for an element, and the elements its fuzzy pass
  scores: those that pass the visibility filter and whose text contains the search text
  or is contained in it.\<close>

definition element_text :: "element \<Rightarrow> string" where
  "element_text el = trim (toLowerCase (text_or_empty el))"

definition fuzzy_candidates :: "document \<Rightarrow> string \<Rightarrow> bool \<Rightarrow> element list" where
  "fuzzy_candidates doc txt visible =
     filter (\<lambda>el. \<not> (visible \<and> \<not> isVisible el)
                 \<and> (str_includes (element_text el) (trim (toLowerCase txt))
                      \<or> str_includes (trim (toLowerCase txt)) (element_text el)))
       (querySelectorAll doc text_selector)"

text \<open>The search words of the word-based score that overlap a target word.\<close>

definition matched_words :: "string \<Rightarrow> string \<Rightarrow> string list" where
  "matched_words search target =
     filter (\<lambda>sw. \<exists>tw\<in>set (split_ws target). str_includes tw sw \<or> str_includes sw tw) (split_ws search)"

text \<open>A page with a hidden and a shown search button and a longer link, for the examples.\<close>

definition hiddenButton :: element where
  "hiddenButton = \<lparr>node_id = 1, tagName = ''BUTTON'', textContent = Some ''Search'', attributes = [],
     hasOffsetParent = False, style = \<lparr>display = ''none'', visibility = ''visible'', opacity = ''1''\<rparr>,
     rect = \<lparr>width = 0, height = 0\<rparr>\<rparr>"

definition shownButton :: element where
  "shownButton = \<lparr>node_id = 2, tagName = ''BUTTON'', textContent = Some '' Search '', attributes = [],
     hasOffsetParent = True, style = \<lparr>display = ''block'', visibility = ''visible'', opacity = ''1''\<rparr>,
     rect = \<lparr>width = 80, height = 24\<rparr>\<rparr>"

definition helpLink :: element where
  "helpLink = \<lparr>node_id = 3, tagName = ''A'', textContent = Some ''Search help and tips'',
     attributes = [(''href'', ''/help'')],
     hasOffsetParent = True, style = \<lparr>display = ''inline'', visibility = ''visible'', opacity = ''1''\<rparr>,
     rect = \<lparr>width = 120, height = 16\<rparr>\<rparr>"

definition examplePage :: document where
  "examplePage =
     \<lparr>querySelector = (\<lambda>sel. if sel = ''button'' then Inr (Some hiddenButton)
                              else if sel = ''a'' then Inr (Some helpLink)
                              else if sel = ''>>'' then Inl SyntaxError else Inr None),
      querySelectorAll = (\<lambda>sel. if sel = text_selector then [hiddenButton, helpLink, shownButton]
                                 else if sel = ''*'' then [hiddenButton, helpLink, shownButton]
                                 else [])\<rparr>"

definition emptyPage :: document where
  "emptyPage = \<lparr>querySelector = (\<lambda>sel. Inr None), querySelectorAll = (\<lambda>sel. [])\<rparr>"

text \<open>The component state, when there is one, counts the steps it holds.\<close>

definition counter_consistent :: "loop_state \<Rightarrow> bool" where
  "counter_consistent st = (case agentState st of None \<Rightarrow> True | Some a \<Rightarrow> stepCount a = length (steps a))"

text \<open>Explicit cancellation: the error is an \<open>Error\<close> named \<open>AbortError\<close>.\<close>

definition is_abort :: "thrown \<Rightarrow> bool" where
  "is_abort e = (case e of JsError name message \<Rightarrow> name = ''AbortError'' | NonError b \<Rightarrow> False)"

text \<open>
  The failures named by their status for which a retry is stated: the rate limit (429),
  a server error (a three-digit status from 500), and any other 4xx status except 401 and
  403, as long as the part of the response text quoted in the error message holds neither
  number.
\<close>

definition retried_failure :: "nat \<Rightarrow> string \<Rightarrow> bool" where
  "retried_failure status body \<longleftrightarrow>
     status = 429
     \<or> (500 \<le> status \<and> status \<le> 999)
     \<or> (400 \<le> status \<and> status \<le> 499 \<and> status \<noteq> 401 \<and> status \<noteq> 403
          \<and> \<not> str_includes (take 200 body) ''401'' \<and> \<not> str_includes (take 200 body) ''403'')"

text \<open>Responses and replies for the examples.\<close>

definition unavailable :: http_response where
  "unavailable = \<lparr>status_code = 503, has_body = True, body_read = Inr ''Service Unavailable'',
     json_error = []\<rparr>"

definition rateLimited :: http_response where
  "rateLimited = \<lparr>status_code = 429, has_body = True, body_read = Inr [], json_error = []\<rparr>"

definition notFound :: http_response where
  "notFound = \<lparr>status_code = 404, has_body = True, body_read = Inr ''Not Found'', json_error = []\<rparr>"

definition unauthorized :: http_response where
  "unauthorized = \<lparr>status_code = 401, has_body = True, body_read = Inr [], json_error = []\<rparr>"

definition answered :: http_response where
  \<open>answered = \<lparr>status_code = 200, has_body = True,
     body_read = Inr ''{"choices":[{"message":{"role":"assistant","content":"ok"}}]}'',
     json_error = []\<rparr>\<close>

definition notJson :: http_response where
  "notJson = \<lparr>status_code = 200, has_body = True, body_read = Inr ''ok'',
     json_error = ''Unexpected token o in JSON at position 0''\<rparr>"

definition aborted :: fetch_result where
  "aborted = FetchRejected (JsError ''AbortError'' ''The user aborted a request.'')"

definition answer :: ai_reply where
  "answer = \<lparr>reply_content = Some (JString (units ''ok'')), reply_thinking = None,
     rawModelOutput =
       JObject [(units ''choices'',
         JArray [JObject [(units ''message'',
           JObject [(units ''role'', JString (units ''assistant'')),
                    (units ''content'', JString (units ''ok''))])]])]\<rparr>"

section \<open>Token-budget packer: greedy prefix\<close>

lemma packChunks_append: "\<exists>n\<le>length chunks. packChunks chunks m t sel = sel @ take n chunks
   \<and> (\<forall>i<n. t + total_tokens (take i chunks) + tokens (chunks ! i) \<le> m)
   \<and> (n < length chunks \<longrightarrow> m < t + total_tokens (take n chunks) + tokens (chunks ! n))"
proof (induction chunks arbitrary: t sel)
  case Nil
  then show ?case by simp
next
  case (Cons c cs)
  show ?case
  proof (cases "t + tokens c \<le> m")
    case False
    then show ?thesis by (intro exI [of _ 0]) (simp add: total_tokens_def)
  next
    case True
    from Cons.IH [of "t + tokens c" "sel @ [c]"] obtain n where n: "n \<le> length cs"
      "packChunks cs m (t + tokens c) (sel @ [c]) = (sel @ [c]) @ take n cs"
      "\<forall>i<n. t + tokens c + total_tokens (take i cs) + tokens (cs ! i) \<le> m"
      "n < length cs \<longrightarrow> m < t + tokens c + total_tokens (take n cs) + tokens (cs ! n)"
      by blast
    have "\<forall>i<Suc n. t + total_tokens (take i (c # cs)) + tokens ((c # cs) ! i) \<le> m"
    proof (intro allI impI)
      fix i assume "i < Suc n"
      then show "t + total_tokens (take i (c # cs)) + tokens ((c # cs) ! i) \<le> m"
        using True n(3) by (cases i) (simp_all add: total_tokens_def add.assoc)
    qed
    with True n show ?thesis
      by (intro exI [of _ "Suc n"]) (simp add: total_tokens_def add.assoc)
  qed
qed

lemma total_tokens_take_Suc:
  "i < length cs \<Longrightarrow> total_tokens (take (Suc i) cs) = total_tokens (take i cs) + tokens (cs ! i)"
  by (simp add: total_tokens_def take_Suc_conv_app_nth)

lemma prefix_within_budget:
  assumes "\<forall>i<n. total_tokens (take i cs) + tokens (cs ! i) \<le> m" and "n \<le> length cs"
  shows "total_tokens (take n cs) \<le> m"
proof (cases n)
  case 0
  then show ?thesis by (simp add: total_tokens_def)
next
  case (Suc k)
  with assms have "total_tokens (take k cs) + tokens (cs ! k) \<le> m" and "k < length cs" by auto
  then show ?thesis using Suc by (simp add: total_tokens_take_Suc)
qed

text \<open>
  C6. The packer selects a prefix of the chunk list in the order given: every chunk of
  the prefix fitted the budget when it was reached, the chunk after the prefix (when
  there is one) would have overflowed it, later chunks are not looked at, and the token
  estimates of the selection sum to at most \<open>maxTokens\<close>. The content that
  \<open>buildOptimizedContent\<close> returns is rendered from that prefix alone.
\<close>

theorem packer_greedy_prefix_within_budget:
  "(let selected = packChunks chunks maxTokens 0 []; n = length selected in
     selected = take n chunks
     \<and> total_tokens selected \<le> maxTokens
     \<and> (\<forall>i<n. total_tokens (take i chunks) + tokens (chunks ! i) \<le> maxTokens)
     \<and> (n < length chunks \<longrightarrow> maxTokens < total_tokens selected + tokens (chunks ! n))
     \<and> buildOptimizedContent chunks maxTokens
         = trim (fst (foldl renderChunk ([], None) (take n chunks))))"
proof -
  from packChunks_append [of chunks maxTokens 0 "[]"] obtain n where n: "n \<le> length chunks"
    "packChunks chunks maxTokens 0 [] = take n chunks"
    "\<forall>i<n. total_tokens (take i chunks) + tokens (chunks ! i) \<le> maxTokens"
    "n < length chunks \<longrightarrow> maxTokens < total_tokens (take n chunks) + tokens (chunks ! n)"
    by auto
  have len: "length (packChunks chunks maxTokens 0 []) = n" using n(1,2) by simp
  have "total_tokens (take n chunks) \<le> maxTokens" using prefix_within_budget [OF n(3) n(1)] .
  with n len show ?thesis by (simp add: Let_def buildOptimizedContent_def)
qed

theorem packer_greedy_prefix_within_budget_witness:
  "(let chunks = [\<lparr>ctype = Heading, priority = 80, chunk_text = ''Title'', tokens = 100, level = Some 1\<rparr>,
                  \<lparr>ctype = Code, priority = 75, chunk_text = ''x = 1'', tokens = 150, level = None\<rparr>,
                  \<lparr>ctype = Paragraph, priority = 70, chunk_text = ''long'', tokens = 100, level = None\<rparr>,
                  \<lparr>ctype = Quote, priority = 55, chunk_text = ''tiny'', tokens = 10, level = None\<rparr>];
        selected = packChunks chunks 300 0 []
    in selected = take 2 chunks \<and> total_tokens selected = 250 \<and> 2 < length chunks
       \<and> 300 < total_tokens selected + tokens (chunks ! 2)
       \<and> total_tokens (take 2 chunks) + tokens (chunks ! 3) \<le> 300)"
  using packer_greedy_prefix_within_budget [of
      "[\<lparr>ctype = Heading, priority = 80, chunk_text = ''Title'', tokens = 100, level = Some 1\<rparr>,
        \<lparr>ctype = Code, priority = 75, chunk_text = ''x = 1'', tokens = 150, level = None\<rparr>,
        \<lparr>ctype = Paragraph, priority = 70, chunk_text = ''long'', tokens = 100, level = None\<rparr>,
        \<lparr>ctype = Quote, priority = 55, chunk_text = ''tiny'', tokens = 10, level = None\<rparr>]" 300]
  by (simp add: Let_def total_tokens_def)

section \<open>Context cache: expiry on read and by timer\<close>

lemma fire_fields [simp]: "timers (fire w t) = timers w" "clock (fire w t) = clock w"
  "cache (fire w t) = (cache w)(timer_key t := None)"
  by (simp_all add: fire_def cache_delete_def timer_key_def)

lemma foldl_fire_fields [simp]:
  "timers (foldl fire w ts) = timers w" "clock (foldl fire w ts) = clock w"
  by (induction ts arbitrary: w) simp_all

lemma foldl_fire_cache:
  "cache (foldl fire w ts) key = (if key \<in> timer_key ` set ts then None else cache w key)"
  by (induction ts arbitrary: w) auto

lemma runDueTimers_fields [simp]:
  "timers (runDueTimers w) = filter (\<lambda>t. \<not> due t \<le> clock w) (timers w)"
  "clock (runDueTimers w) = clock w"
  by (simp_all add: runDueTimers_def)

lemma runDueTimers_cache:
  "cache (runDueTimers w) key =
     (if \<exists>t\<in>set (timers w). due t \<le> clock w \<and> timer_key t = key then None else cache w key)"
  by (auto simp: runDueTimers_def foldl_fire_cache)

lemma timer_delay_id: "0 \<le> ms \<Longrightarrow> ms < 2147483648 \<Longrightarrow> timer_delay ms = ms"
  unfolding timer_delay_def
  by (simp add: sint_sbintrunc' signed_take_bit_int_eq_self)

lemma cache_get_shrinks: "cache w key = None \<Longrightarrow> cache (snd (cache_get w u tabId maxAge)) key = None"
  by (simp add: cache_get_def Let_def split: option.splits)

lemma cache_get_timers [simp]: "timers (snd (cache_get w u tabId maxAge)) = timers w"
  by (simp add: cache_get_def Let_def split: option.splits)

lemma hasChanged_snd: "snd (hasChanged w u tabId h) = snd (cache_get w u tabId None)"
  by (simp add: hasChanged_def split: prod.splits option.splits)

lemma timer_guards_step:
  assumes "timer_guards t w" and "\<not> sets_key (timer_key t) op"
  shows "timer_guards t (apply_cache_op w op)"
proof (cases op)
  case (OpSet ctx tabId ttl)
  with assms show ?thesis by (auto simp: timer_guards_def cache_set_def Let_def)
next
  case (OpGet u tabId maxAge)
  with assms show ?thesis by (auto simp: timer_guards_def cache_get_shrinks)
next
  case (OpDelete u tabId)
  with assms show ?thesis by (auto simp: timer_guards_def cache_delete_def)
next
  case (OpClearTab tabId)
  with assms show ?thesis by (auto simp: timer_guards_def clearTab_def)
next
  case OpClearAll
  with assms show ?thesis by (auto simp: timer_guards_def clearAll_def)
next
  case (OpHasChanged u tabId h)
  with assms show ?thesis by (auto simp: timer_guards_def hasChanged_snd cache_get_shrinks)
next
  case (OpElapse ms)
  with assms show ?thesis by (auto simp: timer_guards_def elapse_def)
next
  case OpRunDueTimers
  with assms show ?thesis by (auto simp: timer_guards_def runDueTimers_cache)
qed

lemma timer_guards_run:
  "timer_guards t w \<Longrightarrow> \<forall>op\<in>set ops. \<not> sets_key (timer_key t) op
     \<Longrightarrow> timer_guards t (foldl apply_cache_op w ops)"
  by (induction ops arbitrary: w) (simp_all add: timer_guards_step)

lemma timer_guards_set:
  "timer_guards \<lparr>due = clock w + timer_delay (or_default ttl), timer_url = url ctx, timer_tabId = tabId\<rparr>
     (cache_set w ctx tabId ttl)"
  by (simp add: timer_guards_def cache_set_def Let_def)

lemma cache_get_absent: "cache w (getCacheKey u tabId) = None \<Longrightarrow> cache_get w u tabId maxAge = (None, w)"
  by (simp add: cache_get_def)

lemma set_then_timer_fired:
  assumes ops: "\<forall>op\<in>set ops. \<not> sets_key (getCacheKey (url ctx) tabId) op"
    and w': "w' = foldl apply_cache_op (cache_set w ctx tabId ttl) ops"
    and due: "clock w + timer_delay (or_default ttl) \<le> clock w'"
    and fired: "\<forall>t\<in>set (timers w'). clock w' < due t"
  shows "cache w' (getCacheKey (url ctx) tabId) = None"
proof -
  let ?t = "\<lparr>due = clock w + timer_delay (or_default ttl), timer_url = url ctx, timer_tabId = tabId\<rparr>"
  have key: "timer_key ?t = getCacheKey (url ctx) tabId" by (simp add: timer_key_def)
  have "timer_guards ?t w'"
    unfolding w' using timer_guards_set ops by (intro timer_guards_run) (simp_all add: key)
  moreover have "?t \<notin> set (timers w')" using due fired by force
  ultimately show ?thesis by (simp add: timer_guards_def key)
qed


lemma or_default_pos: "ttl \<noteq> 0 \<Longrightarrow> or_default (Some ttl) = ttl"
  by (simp add: or_default_def)

lemma runDueTimers_none_due: "\<forall>t\<in>set (timers (runDueTimers w)). clock (runDueTimers w) < due t"
  by auto

text \<open>
  C2 (as amended). \<open>get\<close> with no \<open>maxAge\<close> compares the entry's age with the default
  TTL of 30000 ms, not with the \<open>ttl\<close> given to \<open>set\<close>: an entry older than 30000 ms is
  removed and null is returned. The \<open>ttl\<close> of \<open>set\<close> (positive, within the timer range)
  only schedules a timer: once the clock has reached the set time plus \<open>ttl\<close>, every due
  timer has fired and no later call has stored the key again, the key is absent and
  \<open>get\<close> returns null. So after \<open>set\<close> with \<open>ttl = 1000\<close>, 1500 ms later and with the due
  timers run, \<open>get\<close> returns null. For any \<open>ttl\<close>, given or not, the same holds with the
  delay the timer takes from it, which is 30000 ms when \<open>ttl\<close> is 0 or omitted.
\<close>

theorem cache_get_expiry:
  "(cache w0 (getCacheKey u tabId) = Some e \<and> defaultTTL < clock w0 - cached_timestamp e
      \<longrightarrow> cache_get w0 u tabId None = (None, w0\<lparr>cache := (cache w0)(getCacheKey u tabId := None)\<rparr>))
   \<and> (0 < ttl \<and> ttl < 2147483648
        \<and> (\<forall>op\<in>set ops. \<not> sets_key (getCacheKey (url ctx) tabId) op)
        \<and> clock w + ttl \<le> clock (foldl apply_cache_op (cache_set w ctx tabId (Some ttl)) ops)
        \<and> (\<forall>t\<in>set (timers (foldl apply_cache_op (cache_set w ctx tabId (Some ttl)) ops)).
              clock (foldl apply_cache_op (cache_set w ctx tabId (Some ttl)) ops) < due t)
      \<longrightarrow> cache_get (foldl apply_cache_op (cache_set w ctx tabId (Some ttl)) ops) (url ctx) tabId None
            = (None, foldl apply_cache_op (cache_set w ctx tabId (Some ttl)) ops)
          \<and> cache (foldl apply_cache_op (cache_set w ctx tabId (Some ttl)) ops) (getCacheKey (url ctx) tabId)
            = None)
   \<and> fst (cache_get (runDueTimers (elapse (cache_set w ctx tabId (Some 1000)) 1500)) (url ctx) tabId None)
       = None
   \<and> ((\<forall>op\<in>set later. \<not> sets_key (getCacheKey (url ctx) tabId) op)
        \<and> clock w + timer_delay (or_default given)
            \<le> clock (foldl apply_cache_op (cache_set w ctx tabId given) later)
        \<and> (\<forall>t\<in>set (timers (foldl apply_cache_op (cache_set w ctx tabId given) later)).
              clock (foldl apply_cache_op (cache_set w ctx tabId given) later) < due t)
      \<longrightarrow> cache_get (foldl apply_cache_op (cache_set w ctx tabId given) later) (url ctx) tabId None
            = (None, foldl apply_cache_op (cache_set w ctx tabId given) later)
          \<and> cache (foldl apply_cache_op (cache_set w ctx tabId given) later) (getCacheKey (url ctx) tabId)
            = None)"
proof (intro conjI impI)
  assume "cache w0 (getCacheKey u tabId) = Some e \<and> defaultTTL < clock w0 - cached_timestamp e"
  then show "cache_get w0 u tabId None = (None, w0\<lparr>cache := (cache w0)(getCacheKey u tabId := None)\<rparr>)"
    by (simp add: cache_get_def Let_def or_default_def)
next
  let ?w' = "foldl apply_cache_op (cache_set w ctx tabId (Some ttl)) ops"
  assume a: "0 < ttl \<and> ttl < 2147483648
        \<and> (\<forall>op\<in>set ops. \<not> sets_key (getCacheKey (url ctx) tabId) op)
        \<and> clock w + ttl \<le> clock ?w' \<and> (\<forall>t\<in>set (timers ?w'). clock ?w' < due t)"
  then have "timer_delay (or_default (Some ttl)) = ttl"
    by (simp add: or_default_pos timer_delay_id)
  with a have gone: "cache ?w' (getCacheKey (url ctx) tabId) = None"
    by (intro set_then_timer_fired [where w = w and ops = ops and ttl = "Some ttl"]) simp_all
  then show "cache_get ?w' (url ctx) tabId None = (None, ?w')" by (rule cache_get_absent)
  show "cache ?w' (getCacheKey (url ctx) tabId) = None" by (rule gone)
next
  let ?w' = "foldl apply_cache_op (cache_set w ctx tabId (Some 1000)) [OpElapse 1500, OpRunDueTimers]"
  have "timer_delay (or_default (Some 1000)) = 1000"
    by (simp add: or_default_pos timer_delay_id)
  moreover have "clock ?w' = clock w + 1500" by (simp add: elapse_def cache_set_def Let_def)
  ultimately have "cache ?w' (getCacheKey (url ctx) tabId) = None"
    by (intro set_then_timer_fired [where w = w and ops = "[OpElapse 1500, OpRunDueTimers]"
          and ttl = "Some 1000"]) auto
  then have "cache_get ?w' (url ctx) tabId None = (None, ?w')" by (rule cache_get_absent)
  then show "fst (cache_get (runDueTimers (elapse (cache_set w ctx tabId (Some 1000)) 1500))
      (url ctx) tabId None) = None" by simp
next
  let ?w' = "foldl apply_cache_op (cache_set w ctx tabId given) later"
  assume a: "(\<forall>op\<in>set later. \<not> sets_key (getCacheKey (url ctx) tabId) op)
        \<and> clock w + timer_delay (or_default given) \<le> clock ?w'
        \<and> (\<forall>t\<in>set (timers ?w'). clock ?w' < due t)"
  then have gone: "cache ?w' (getCacheKey (url ctx) tabId) = None"
    by (intro set_then_timer_fired [where w = w and ops = later and ttl = given]) simp_all
  then show "cache_get ?w' (url ctx) tabId None = (None, ?w')" by (rule cache_get_absent)
  show "cache ?w' (getCacheKey (url ctx) tabId) = None" by (rule gone)
qed

lemma example_key: "getCacheKey ''https://example.com/'' 7 = ''7:https://example.com/''"
  by (simp add: getCacheKey_def show_int_def show_nat.simps digit_char_def)

lemma timer_delay_1000: "timer_delay 1000 = 1000" "timer_delay 30000 = 30000" "timer_delay 5000 = 5000"
  by (simp_all add: timer_delay_id)

text \<open>
  C2 as stated fails: 1500 ms after \<open>set\<close> with \<open>ttl = 1000\<close>, while the task that called
  \<open>set\<close> is still running (no timer callback has run), \<open>get\<close> returns the observation
  and keeps the entry; and after \<open>set\<close> with \<open>ttl = 0\<close> the timer is due at 30000 ms, so
  \<open>get\<close> at age 1500 returns the observation even with every due timer run.
\<close>

theorem cache_get_before_timer_counterexample:
  "(let ctx = \<lparr>url = ''https://example.com/'', title = ''Example'', mainContentSnippet = None, hash = None\<rparr>;
        w = elapse (cache_set (new_cache 0) ctx 7 (Some 1000)) 1500;
        w' = runDueTimers (elapse (cache_set (new_cache 0) ctx 7 (Some 0)) 1500)
    in clock w - 0 = 1500 \<and> fst (cache_get w (url ctx) 7 None) = Some ctx
       \<and> cache (snd (cache_get w (url ctx) 7 None)) (getCacheKey (url ctx) 7) \<noteq> None
       \<and> clock w' - 0 = 1500 \<and> fst (cache_get w' (url ctx) 7 None) = Some ctx)"
  by (simp add: Let_def new_cache_def cache_set_def elapse_def cache_get_def example_key
      or_default_def defaultTTL_def runDueTimers_def timer_delay_1000)

theorem cache_get_expiry_witness:
  "(let ctx = \<lparr>url = ''https://example.com/'', title = ''Example'', mainContentSnippet = None, hash = None\<rparr>;
        e = \<lparr>cached_context = ctx, cached_timestamp = 0, cached_url = url ctx, cached_tabId = 7\<rparr>;
        w0 = elapse (cache_set (new_cache 0) ctx 7 None) 30001;
        ops = [OpElapse 400, OpGet (url ctx) 7 None, OpRunDueTimers, OpElapse 1100, OpRunDueTimers];
        w' = foldl apply_cache_op (cache_set (new_cache 0) ctx 7 (Some 1000)) ops;
        later = [OpElapse 30000, OpRunDueTimers];
        w'' = foldl apply_cache_op (cache_set (new_cache 0) ctx 7 None) later
    in cache w0 (getCacheKey (url ctx) 7) = Some e \<and> defaultTTL < clock w0 - cached_timestamp e
       \<and> cache_get w0 (url ctx) 7 None = (None, w0\<lparr>cache := (cache w0)(getCacheKey (url ctx) 7 := None)\<rparr>)
       \<and> (\<forall>op\<in>set ops. \<not> sets_key (getCacheKey (url ctx) 7) op)
       \<and> clock (new_cache 0) + 1000 \<le> clock w' \<and> (\<forall>t\<in>set (timers w'). clock w' < due t)
       \<and> cache_get w' (url ctx) 7 None = (None, w')
       \<and> (\<forall>op\<in>set later. \<not> sets_key (getCacheKey (url ctx) 7) op)
       \<and> clock (new_cache 0) + timer_delay (or_default None) \<le> clock w''
       \<and> (\<forall>t\<in>set (timers w''). clock w'' < due t)
       \<and> cache_get w'' (url ctx) 7 None = (None, w''))"
  using cache_get_expiry [where ?w0.0 = "elapse (cache_set (new_cache 0)
        \<lparr>url = ''https://example.com/'', title = ''Example'', mainContentSnippet = None, hash = None\<rparr> 7 None) 30001"
      and u = "''https://example.com/''" and tabId = 7 and e =
      "\<lparr>cached_context = \<lparr>url = ''https://example.com/'', title = ''Example'', mainContentSnippet = None, hash = None\<rparr>,
        cached_timestamp = 0, cached_url = ''https://example.com/'', cached_tabId = 7\<rparr>"
      and ttl = 1000
      and ops = "[OpElapse 400, OpGet ''https://example.com/'' 7 None, OpRunDueTimers, OpElapse 1100, OpRunDueTimers]"
      and ctx = "\<lparr>url = ''https://example.com/'', title = ''Example'', mainContentSnippet = None, hash = None\<rparr>"
      and w = "new_cache 0" and given = None and later = "[OpElapse 30000, OpRunDueTimers]"]
  by (simp add: Let_def new_cache_def cache_set_def elapse_def cache_get_def example_key
      or_default_def defaultTTL_def runDueTimers_def timer_delay_1000 fire_def cache_delete_def)


text \<open>
  C10. A second \<open>set\<close> for the same key, \<open>d1 < ttl1\<close> ms after the first, replaces the
  entry and leaves the first timer pending beside its own; when the first timer fires, at
  the first insertion time plus \<open>ttl1\<close>, the key is deleted although the replacement is
  only \<open>d2 < ttl2\<close> ms old and its own timer is still pending.
\<close>

theorem earlier_timer_evicts_replacement:
  assumes ttl1: "0 < ttl1" "ttl1 < 2147483648" and ttl2: "0 < ttl2" "ttl2 < 2147483648"
    and d1: "0 \<le> d1" "d1 < ttl1" and d2: "0 \<le> d2" "ttl1 \<le> d1 + d2" "d2 < ttl2"
    and same: "url ctx2 = url ctx1"
  shows "(let key = getCacheKey (url ctx1) tabId;
              w1 = cache_set w ctx1 tabId (Some ttl1);
              w2 = runDueTimers (elapse w1 d1);
              w3 = cache_set w2 ctx2 tabId (Some ttl2);
              w4 = runDueTimers (elapse w3 d2)
          in cache w3 key = Some \<lparr>cached_context = ctx2, cached_timestamp = clock w + d1,
                                   cached_url = url ctx2, cached_tabId = tabId\<rparr>
             \<and> \<lparr>due = clock w + ttl1, timer_url = url ctx1, timer_tabId = tabId\<rparr> \<in> set (timers w3)
             \<and> \<lparr>due = clock w + d1 + ttl2, timer_url = url ctx2, timer_tabId = tabId\<rparr> \<in> set (timers w3)
             \<and> cache w4 key = None
             \<and> cache_get w4 (url ctx2) tabId None = (None, w4)
             \<and> clock w4 - (clock w + d1) < ttl2
             \<and> \<lparr>due = clock w + d1 + ttl2, timer_url = url ctx2, timer_tabId = tabId\<rparr> \<in> set (timers w4))"
proof -
  define key where "key = getCacheKey (url ctx1) tabId"
  define w1 where "w1 = cache_set w ctx1 tabId (Some ttl1)"
  define w2 where "w2 = runDueTimers (elapse w1 d1)"
  define w3 where "w3 = cache_set w2 ctx2 tabId (Some ttl2)"
  define w4 where "w4 = runDueTimers (elapse w3 d2)"
  let ?t1 = "\<lparr>due = clock w + ttl1, timer_url = url ctx1, timer_tabId = tabId\<rparr>"
  let ?t2 = "\<lparr>due = clock w + d1 + ttl2, timer_url = url ctx2, timer_tabId = tabId\<rparr>"
  have delay1: "timer_delay (or_default (Some ttl1)) = ttl1"
    using ttl1 by (simp add: or_default_pos timer_delay_id)
  have delay2: "timer_delay (or_default (Some ttl2)) = ttl2"
    using ttl2 by (simp add: or_default_pos timer_delay_id)
  have clock2: "clock w2 = clock w + d1"
    by (simp add: w2_def w1_def elapse_def cache_set_def Let_def)
  have t1_w1: "?t1 \<in> set (timers w1)"
    by (simp add: w1_def cache_set_def Let_def delay1)
  have t1_w2: "?t1 \<in> set (timers w2)"
    using d1 by (simp add: w2_def elapse_def w1_def cache_set_def Let_def delay1)
  have entry3: "cache w3 key = Some \<lparr>cached_context = ctx2, cached_timestamp = clock w + d1,
      cached_url = url ctx2, cached_tabId = tabId\<rparr>"
    by (simp add: w3_def cache_set_def Let_def key_def same clock2)
  have t1_w3: "?t1 \<in> set (timers w3)"
    using t1_w2 by (simp add: w3_def cache_set_def Let_def)
  have t2_w3: "?t2 \<in> set (timers w3)"
    by (simp add: w3_def cache_set_def Let_def delay2 clock2)
  have clock4: "clock w4 = clock w + d1 + d2"
    by (simp add: w4_def elapse_def w3_def cache_set_def Let_def clock2)
  have "due ?t1 \<le> clock (elapse w3 d2) \<and> timer_key ?t1 = key"
    using d2 by (simp add: elapse_def w3_def cache_set_def Let_def clock2 timer_key_def key_def)
  with t1_w3 have gone: "cache w4 key = None"
    unfolding w4_def runDueTimers_cache by (auto simp: elapse_def)
  then have get4: "cache_get w4 (url ctx2) tabId None = (None, w4)"
    unfolding key_def same [symmetric] by (rule cache_get_absent)
  have t2_w4: "?t2 \<in> set (timers w4)"
    using d2 by (simp add: w4_def elapse_def w3_def cache_set_def Let_def clock2 delay2)
  have "clock w4 - (clock w + d1) < ttl2" using d2 by (simp add: clock4)
  with entry3 t1_w3 t2_w3 gone get4 t2_w4 show ?thesis
    unfolding Let_def key_def [symmetric] w1_def [symmetric] w2_def [symmetric] w3_def [symmetric]
      w4_def [symmetric] by simp
qed

theorem earlier_timer_evicts_replacement_witness:
  "(let ctx1 = \<lparr>url = ''https://example.com/'', title = ''Old'', mainContentSnippet = None, hash = None\<rparr>;
        ctx2 = \<lparr>url = ''https://example.com/'', title = ''New'', mainContentSnippet = None, hash = None\<rparr>;
        w3 = cache_set (runDueTimers (elapse (cache_set (new_cache 0) ctx1 7 (Some 1000)) 600)) ctx2 7 (Some 5000);
        w4 = runDueTimers (elapse w3 400)
    in (0::int) < 1000 \<and> (600::int) < 1000 \<and> (1000::int) \<le> 600 + 400 \<and> (400::int) < 5000
       \<and> url ctx2 = url ctx1
       \<and> cache w3 ''7:https://example.com/''
           = Some \<lparr>cached_context = ctx2, cached_timestamp = 600, cached_url = url ctx2, cached_tabId = 7\<rparr>
       \<and> timers w3 = [\<lparr>due = 1000, timer_url = url ctx1, timer_tabId = 7\<rparr>,
                       \<lparr>due = 5600, timer_url = url ctx2, timer_tabId = 7\<rparr>]
       \<and> cache w4 ''7:https://example.com/'' = None \<and> clock w4 = 1000
       \<and> fst (cache_get w4 (url ctx2) 7 None) = None)"
  using earlier_timer_evicts_replacement [where ?ttl1.0 = 1000 and ?ttl2.0 = 5000 and ?d1.0 = 600
      and ?d2.0 = 400 and w = "new_cache 0" and tabId = 7
      and ?ctx1.0 = "\<lparr>url = ''https://example.com/'', title = ''Old'', mainContentSnippet = None, hash = None\<rparr>"
      and ?ctx2.0 = "\<lparr>url = ''https://example.com/'', title = ''New'', mainContentSnippet = None, hash = None\<rparr>"]
  by (simp add: Let_def new_cache_def cache_set_def elapse_def cache_get_def example_key
      or_default_def defaultTTL_def runDueTimers_def timer_delay_1000 fire_def cache_delete_def)

section \<open>Model gateway: retry with backoff\<close>

lemma retry_loop_shape:
  "attempt < maxRetries \<Longrightarrow>
     (let r = retry_loop fn maxRetries baseDelay attempt lastError slept in
      attempt < calls r \<and> calls r \<le> maxRetries
      \<and> delays r = slept @ map (\<lambda>k. baseDelay * 2 ^ k) [attempt ..< calls r - 1]
      \<and> (\<forall>k. attempt \<le> k \<and> k < calls r - 1 \<longrightarrow> (\<exists>e. fn k = Inl e \<and> \<not> rethrown_at_once e))
      \<and> outcome r = (case fn (calls r - 1) of
                        Inr v \<Rightarrow> Inr v
                      | Inl e \<Rightarrow> Inl (if rethrown_at_once e then e else or_max_retries (Some e)))
      \<and> (calls r < maxRetries \<longrightarrow>
            (case fn (calls r - 1) of Inr v \<Rightarrow> True | Inl e \<Rightarrow> rethrown_at_once e)))"
proof (induction fn maxRetries baseDelay attempt lastError slept rule: retry_loop.induct)
  case (1 fn maxRetries baseDelay attempt lastError slept)
  show ?case
  proof (cases "fn attempt")
    case (Inr v)
    with "1.prems" show ?thesis by (auto simp: retry_loop.simps [of fn maxRetries baseDelay attempt])
  next
    case (Inl e)
    show ?thesis
    proof (cases "rethrown_at_once e")
      case True
      with Inl "1.prems" show ?thesis by (auto simp: retry_loop.simps [of fn maxRetries baseDelay attempt])
    next
      case False
      show ?thesis
      proof (cases "attempt + 1 < maxRetries")
        case True
        let ?r = "retry_loop fn maxRetries baseDelay (attempt + 1) (Some e) (slept @ [baseDelay * 2 ^ attempt])"
        have eq: "retry_loop fn maxRetries baseDelay attempt lastError slept = ?r"
          using Inl False True "1.prems" by (simp add: retry_loop.simps [of fn maxRetries baseDelay attempt])
        have IH: "attempt + 1 < calls ?r \<and> calls ?r \<le> maxRetries
          \<and> delays ?r = (slept @ [baseDelay * 2 ^ attempt]) @ map (\<lambda>k. baseDelay * 2 ^ k) [attempt + 1 ..< calls ?r - 1]
          \<and> (\<forall>k. attempt + 1 \<le> k \<and> k < calls ?r - 1 \<longrightarrow> (\<exists>e. fn k = Inl e \<and> \<not> rethrown_at_once e))
          \<and> outcome ?r = (case fn (calls ?r - 1) of
                        Inr v \<Rightarrow> Inr v
                      | Inl e \<Rightarrow> Inl (if rethrown_at_once e then e else or_max_retries (Some e)))
          \<and> (calls ?r < maxRetries \<longrightarrow>
            (case fn (calls ?r - 1) of Inr v \<Rightarrow> True | Inl e \<Rightarrow> rethrown_at_once e))"
          using "1.IH"(1) [OF "1.prems" Inl False True True] by (simp add: Let_def)
        then have "attempt < calls ?r - 1" by linarith
        then have range: "[attempt ..< calls ?r - 1] = attempt # [attempt + 1 ..< calls ?r - 1]"
          by (simp add: upt_conv_Cons)
        have retried: "\<forall>k. attempt \<le> k \<and> k < calls ?r - 1 \<longrightarrow> (\<exists>e. fn k = Inl e \<and> \<not> rethrown_at_once e)"
        proof (intro allI impI)
          fix k assume k: "attempt \<le> k \<and> k < calls ?r - 1"
          show "\<exists>e. fn k = Inl e \<and> \<not> rethrown_at_once e"
          proof (cases "k = attempt")
            case True
            with Inl False show ?thesis by simp
          next
            case False
            with k IH show ?thesis by simp
          qed
        qed
        from IH range retried show ?thesis unfolding eq Let_def by simp
      next
        case last: False
        have "retry_loop fn maxRetries baseDelay attempt lastError slept
            = \<lparr> outcome = Inl (or_max_retries (Some e)), calls = attempt + 1, delays = slept \<rparr>"
          using Inl False last "1.prems"
          by (simp add: retry_loop.simps [of fn maxRetries baseDelay attempt]
              retry_loop.simps [of fn maxRetries baseDelay "Suc attempt"])
        with Inl False last "1.prems" show ?thesis by (auto simp: Let_def)
      qed
    qed
  qed
qed

lemma retry_loop_no_attempt:
  "\<not> attempt < maxRetries \<Longrightarrow> retry_loop fn maxRetries baseDelay attempt lastError slept
     = \<lparr> outcome = Inl (or_max_retries lastError), calls = attempt, delays = slept \<rparr>"
  by (simp add: retry_loop.simps [of fn maxRetries baseDelay attempt])


lemma sublist3_append:
  "sublist [a, b, c] (xs @ ys) \<longleftrightarrow>
     sublist [a, b, c] xs \<or> sublist [a, b, c] ys
     \<or> (suffix [a] xs \<and> prefix [b, c] ys) \<or> (suffix [a, b] xs \<and> prefix [c] ys)"
proof -
  have splits: "[a, b, c] = u @ v \<longleftrightarrow>
      (u = [] \<and> v = [a, b, c]) \<or> (u = [a] \<and> v = [b, c]) \<or> (u = [a, b] \<and> v = [c])
      \<or> (u = [a, b, c] \<and> v = [])" for u v
    by (auto simp: Cons_eq_append_conv)
  show ?thesis
    unfolding sublist_append splits
    by (auto intro: prefix_imp_sublist suffix_imp_sublist)
qed

lemma provider_names_clean:
  "p \<in> set provider_names \<Longrightarrow> \<not> str_includes p ''401'' \<and> \<not> str_includes p ''403''"
  by (auto simp: provider_names_def str_includes_def sublist_code(3))

lemma digit_char_eq:
  assumes "d < 10"
  shows "(digit_char d = CHR ''0'') = (d = 0)" "(digit_char d = CHR ''1'') = (d = 1)"
    "(digit_char d = CHR ''3'') = (d = 3)" "(digit_char d = CHR ''4'') = (d = 4)"
proof -
  from assms have "d = 0 \<or> d = 1 \<or> d = 2 \<or> d = 3 \<or> d = 4 \<or> d = 5 \<or> d = 6 \<or> d = 7 \<or> d = 8 \<or> d = 9"
    by arith
  then have "((digit_char d = CHR ''0'') = (d = 0)) \<and> ((digit_char d = CHR ''1'') = (d = 1))
    \<and> ((digit_char d = CHR ''3'') = (d = 3)) \<and> ((digit_char d = CHR ''4'') = (d = 4))"
    by (elim disjE) (simp_all add: digit_char_def)
  then show "(digit_char d = CHR ''0'') = (d = 0)" "(digit_char d = CHR ''1'') = (d = 1)"
    "(digit_char d = CHR ''3'') = (d = 3)" "(digit_char d = CHR ''4'') = (d = 4)" by simp_all
qed

lemma three_digits:
  assumes "100 \<le> status" "status \<le> 999" "status \<noteq> 401" "status \<noteq> 403"
  shows "\<exists>h a b. show_nat status = [h, a, b]
    \<and> \<not> (h = CHR ''4'' \<and> a = CHR ''0'' \<and> b = CHR ''1'')
    \<and> \<not> (h = CHR ''4'' \<and> a = CHR ''0'' \<and> b = CHR ''3'')"
proof -
  define q t u where "q = status div 10" and "t = q mod 10" and "u = status mod 10"
  define n where "n = q div 10"
  have dec: "status = 10 * q + u" "q = 10 * n + t" by (simp_all add: q_def t_def u_def n_def)
  have lt: "t < 10" "u < 10" by (simp_all add: t_def u_def)
  from dec lt assms(1,2) have n: "0 < n" "n < 10" by linarith+
  from dec n have q: "\<not> q < 10" "\<not> status < 10" by linarith+
  have "show_nat status = show_nat q @ [digit_char u]"
    using q(2) by (simp add: show_nat.simps [of status] q_def u_def)
  also have "show_nat q = show_nat n @ [digit_char t]"
    using q(1) by (simp add: show_nat.simps [of q] n_def t_def)
  also have "show_nat n = [digit_char n]"
    using n(2) by (simp add: show_nat.simps [of n])
  finally have shown: "show_nat status = [digit_char n, digit_char t, digit_char u]" by simp
  from dec have "status = 100 * n + 10 * t + u" by simp
  with assms(3,4) have "\<not> (n = 4 \<and> t = 0 \<and> u = 1)" "\<not> (n = 4 \<and> t = 0 \<and> u = 3)" by auto
  then have "\<not> (digit_char n = CHR ''4'' \<and> digit_char t = CHR ''0'' \<and> digit_char u = CHR ''1'')"
    "\<not> (digit_char n = CHR ''4'' \<and> digit_char t = CHR ''0'' \<and> digit_char u = CHR ''3'')"
    using digit_char_eq [OF n(2)] digit_char_eq [OF lt(1)] digit_char_eq [OF lt(2)] by simp_all
  with shown show ?thesis by blast
qed

lemma sublist_Cons_skip: "x \<noteq> y \<Longrightarrow> sublist (x # xs) (y # ys) = sublist (x # xs) ys"
  by (simp add: sublist_code(3))

lemma client_message_clean:
  assumes "\<not> sublist [CHR ''4'', CHR ''0'', c] p" "\<not> sublist [CHR ''4'', CHR ''0'', c] tb"
    and "\<not> (h = CHR ''4'' \<and> a = CHR ''0'' \<and> b = c)" "c \<noteq> CHR '' ''" "c \<noteq> CHR '')''"
  shows "\<not> sublist [CHR ''4'', CHR ''0'', c] (''AI API error ('' @ p @ ''): '' @ [h, a, b] @ '' '' @ tb)"
proof -
  let ?w = "[CHR ''4'', CHR ''0'', c]"
  let ?tail = "h # a # b # CHR '' '' # tb"
  have tail: "\<not> sublist ?w ?tail"
    using assms(2,3,4) by (auto simp: sublist_code(3))
  have "sublist ?w (''): '' @ ?tail) = sublist ?w ?tail"
    by (simp add: sublist_Cons_skip)
  with tail have rest: "\<not> sublist ?w (''): '' @ ?tail)" by simp
  have "\<not> prefix [CHR ''0'', c] (''): '' @ ?tail)" "\<not> prefix [c] (''): '' @ ?tail)"
    using assms(5) by simp_all
  with rest assms(1) have "\<not> sublist ?w (p @ ''): '' @ ?tail)"
    unfolding sublist3_append by blast
  moreover have "sublist ?w (''AI API error ('' @ p @ ''): '' @ ?tail) = sublist ?w (p @ ''): '' @ ?tail)"
    by (simp add: sublist_Cons_skip)
  ultimately show ?thesis by simp
qed

lemma server_message_clean:
  assumes "\<not> sublist [CHR ''4'', CHR ''0'', c] p"
    and "\<not> (h = CHR ''4'' \<and> a = CHR ''0'' \<and> b = c)" "c \<noteq> CHR '' ''" "c \<noteq> CHR '')''"
  shows "\<not> sublist [CHR ''4'', CHR ''0'', c] (p @ '' server error ('' @ [h, a, b] @ ''). Please try again.'')"
proof -
  let ?w = "[CHR ''4'', CHR ''0'', c]"
  let ?tail = "h # a # b # ''). Please try again.''"
  have tail: "\<not> sublist ?w ?tail"
    using assms(2,4) by (auto simp: sublist_code(3))
  have "sublist ?w ('' server error ('' @ ?tail) = sublist ?w ?tail"
    by (simp add: sublist_Cons_skip)
  with tail have rest: "\<not> sublist ?w ('' server error ('' @ ?tail)" by simp
  have "\<not> prefix [CHR ''0'', c] ('' server error ('' @ ?tail)" "\<not> prefix [c] ('' server error ('' @ ?tail)"
    using assms(3) by simp_all
  with rest assms(1) have "\<not> sublist ?w (p @ '' server error ('' @ ?tail)"
    unfolding sublist3_append by blast
  then show ?thesis by simp
qed

lemma rate_limit_is_retried:
  assumes "p \<in> set provider_names"
  shows "\<not> rethrown_at_once (status_error p 429 body)"
  using provider_names_clean [OF assms]
  by (simp add: status_error_def str_includes_def sublist3_append sublist_code(3) suffix_def)

lemma server_error_is_retried:
  assumes "p \<in> set provider_names" "500 \<le> status" "status \<le> 999"
  shows "\<not> rethrown_at_once (status_error p status body)"
proof -
  have "100 \<le> status" "status \<noteq> 401" "status \<noteq> 403" using assms(2) by simp_all
  from three_digits [OF this(1) assms(3) this(2,3)]
  obtain h a b where shown: "show_nat status = [h, a, b]"
    and ab: "\<not> (h = CHR ''4'' \<and> a = CHR ''0'' \<and> b = CHR ''1'')"
      "\<not> (h = CHR ''4'' \<and> a = CHR ''0'' \<and> b = CHR ''3'')"
    by blast
  have clean: "\<not> sublist ''401'' p" "\<not> sublist ''403'' p"
    using provider_names_clean [OF assms(1)] by (simp_all add: str_includes_def)
  have "status_error p status body
      = JsError ''Error'' (p @ '' server error ('' @ [h, a, b] @ ''). Please try again.'')"
    using assms(2,3) by (simp add: status_error_def shown)
  moreover have "\<not> sublist ''401'' (p @ '' server error ('' @ [h, a, b] @ ''). Please try again.'')"
    by (rule server_message_clean [OF clean(1) ab(1)]) simp_all
  moreover have "\<not> sublist ''403'' (p @ '' server error ('' @ [h, a, b] @ ''). Please try again.'')"
    by (rule server_message_clean [OF clean(2) ab(2)]) simp_all
  ultimately show ?thesis by (simp add: str_includes_def)
qed

lemma client_error_is_retried:
  assumes "p \<in> set provider_names" "400 \<le> status" "status \<le> 499" "status \<noteq> 401" "status \<noteq> 403"
    and "\<not> str_includes (take 200 body) ''401''" "\<not> str_includes (take 200 body) ''403''"
  shows "\<not> rethrown_at_once (status_error p status body)"
proof (cases "status = 429")
  case True
  then show ?thesis using rate_limit_is_retried [OF assms(1)] by simp
next
  case False
  have "100 \<le> status" "status \<le> 999" using assms(2,3) by simp_all
  from three_digits [OF this assms(4,5)]
  obtain h a b where shown: "show_nat status = [h, a, b]"
    and ab: "\<not> (h = CHR ''4'' \<and> a = CHR ''0'' \<and> b = CHR ''1'')"
      "\<not> (h = CHR ''4'' \<and> a = CHR ''0'' \<and> b = CHR ''3'')"
    by blast
  have clean: "\<not> sublist ''401'' p" "\<not> sublist ''403'' p" "\<not> sublist ''401'' (take 200 body)"
    "\<not> sublist ''403'' (take 200 body)"
    using provider_names_clean [OF assms(1)] assms(6,7) by (simp_all add: str_includes_def)
  have "status_error p status body
      = JsError ''Error'' (''AI API error ('' @ p @ ''): '' @ [h, a, b] @ '' '' @ take 200 body)"
    using assms(2-5) False by (simp add: status_error_def shown)
  moreover have "\<not> sublist ''401'' (''AI API error ('' @ p @ ''): '' @ [h, a, b] @ '' '' @ take 200 body)"
    by (rule client_message_clean [OF clean(1) clean(3) ab(1)]) simp_all
  moreover have "\<not> sublist ''403'' (''AI API error ('' @ p @ ''): '' @ [h, a, b] @ '' '' @ take 200 body)"
    by (rule client_message_clean [OF clean(2) clean(4) ab(2)]) simp_all
  ultimately show ?thesis by (simp add: str_includes_def)
qed

lemma retried_failure_is_retried:
  assumes "p \<in> set provider_names" "retried_failure status body"
  shows "\<not> rethrown_at_once (status_error p status body)"
  using assms rate_limit_is_retried [of p body] server_error_is_retried [of p status body]
    client_error_is_retried [of p status body]
  unfolding retried_failure_def by blast

lemma request_once_retried_failure:
  assumes "retried_failure (status_code res) body" "body_read res = Inr body"
  shows "request_once stream p (FetchResponse res) = Inl (status_error p (status_code res) body)"
proof -
  from assms(1) have "\<not> (200 \<le> status_code res \<and> status_code res \<le> 299)"
    unfolding retried_failure_def by linarith
  with assms(2) show ?thesis by (simp add: request_once_def)
qed

lemma abort_is_rethrown: "is_abort e \<Longrightarrow> rethrown_at_once e"
  by (cases e) (simp_all add: is_abort_def)

lemma callAI_trace:
  "calls (callAI stream p fetches) = calls (retryWithBackoff (\<lambda>k. request_once stream p (fetches k)) 3 1000)"
  "delays (callAI stream p fetches) = delays (retryWithBackoff (\<lambda>k. request_once stream p (fetches k)) 3 1000)"
  by (simp_all add: callAI_def Let_def split: sum.splits thrown.splits)

lemma callAI_outcome:
  "outcome (retryWithBackoff (\<lambda>k. request_once stream p (fetches k)) 3 1000) = Inr v
     \<Longrightarrow> outcome (callAI stream p fetches) = Inr v"
  "outcome (retryWithBackoff (\<lambda>k. request_once stream p (fetches k)) 3 1000) = Inl e \<Longrightarrow> is_abort e
     \<Longrightarrow> outcome (callAI stream p fetches) = Inl (JsError ''Error'' ''Request cancelled by user'')"
  by (simp_all add: callAI_def Let_def is_abort_def split: sum.splits thrown.splits)

lemma retryWithBackoff_shape:
  "calls (retryWithBackoff fn maxRetries baseDelay) \<le> maxRetries
   \<and> delays (retryWithBackoff fn maxRetries baseDelay)
       = map (\<lambda>k. baseDelay * 2 ^ k) [0 ..< calls (retryWithBackoff fn maxRetries baseDelay) - 1]"
proof (cases "0 < maxRetries")
  case True
  from retry_loop_shape [OF True, of fn baseDelay None "[]"] show ?thesis
    by (simp add: retryWithBackoff_def Let_def)
next
  case False
  then show ?thesis by (simp add: retryWithBackoff_def retry_loop_no_attempt)
qed

lemma retryWithBackoff_attempts:
  fixes fn :: "nat \<Rightarrow> thrown + 'a" and maxRetries :: nat and baseDelay :: int
  assumes "0 < maxRetries"
  defines "r \<equiv> retryWithBackoff fn maxRetries baseDelay"
  shows "0 < calls r"
    and "k < calls r - 1 \<Longrightarrow> \<exists>e. fn k = Inl e \<and> \<not> rethrown_at_once e"
    and "fn (calls r - 1) = Inr v \<Longrightarrow> outcome r = Inr v"
    and "fn (calls r - 1) = Inl e \<Longrightarrow> rethrown_at_once e \<Longrightarrow> outcome r = Inl e"
    and "fn (calls r - 1) = Inl e \<Longrightarrow> \<not> rethrown_at_once e \<Longrightarrow> calls r = maxRetries"
proof -
  note shape = retry_loop_shape [OF assms(1), of fn baseDelay None "[]", unfolded Let_def,
      folded retryWithBackoff_def, folded r_def]
  show "0 < calls r" using shape by simp
  show "k < calls r - 1 \<Longrightarrow> \<exists>e. fn k = Inl e \<and> \<not> rethrown_at_once e" using shape by simp
  show "fn (calls r - 1) = Inr v \<Longrightarrow> outcome r = Inr v" using shape by simp
  show "fn (calls r - 1) = Inl e \<Longrightarrow> rethrown_at_once e \<Longrightarrow> outcome r = Inl e" using shape by simp
  show "fn (calls r - 1) = Inl e \<Longrightarrow> \<not> rethrown_at_once e \<Longrightarrow> calls r = maxRetries"
    using shape by (cases "calls r < maxRetries") simp_all
qed

text \<open>
  C3 (as amended). \<open>retryWithBackoff\<close> calls the request at most \<open>maxRetries\<close> times and
  sleeps \<open>baseDelay * 2^attempt\<close> before each retry. \<open>callAI\<close> makes at least one and at most
  three attempts (the first call and up to two retries), with 1000 ms and then 2000 ms
  in between. Every attempt but the last one made has failed, and not by cancellation;
  an attempt that succeeds is the last one and its reply is returned; an attempt that
  fails with an \<open>AbortError\<close> is the last one and the request ends with
  \<open>Request cancelled by user\<close>. For a provider of the default list, an attempt answered
  with status 429, with a three-digit status from 500, or with another 4xx status
  except 401 and 403 (the quoted response text holding neither number) is followed by
  another attempt unless it was the third. Nothing is stated for the statuses 401 and
  403.
\<close>

theorem gateway_retry_policy:
  "calls (retryWithBackoff fn maxRetries baseDelay) \<le> maxRetries
   \<and> delays (retryWithBackoff fn maxRetries baseDelay)
       = map (\<lambda>k. baseDelay * 2 ^ k) [0 ..< calls (retryWithBackoff fn maxRetries baseDelay) - 1]
   \<and> (let request = (\<lambda>k. request_once stream p (fetches k)); r = callAI stream p fetches in
        1 \<le> calls r \<and> calls r \<le> 3
        \<and> delays r = map (\<lambda>k. 1000 * 2 ^ k) [0 ..< calls r - 1]
        \<and> (\<forall>k < calls r - 1. \<exists>e. request k = Inl e \<and> \<not> is_abort e)
        \<and> (\<forall>k < calls r. \<forall>v. request k = Inr v \<longrightarrow> calls r = k + 1 \<and> outcome r = Inr v)
        \<and> (\<forall>k < calls r. \<forall>e. request k = Inl e \<and> is_abort e
              \<longrightarrow> calls r = k + 1 \<and> outcome r = Inl (JsError ''Error'' ''Request cancelled by user''))
        \<and> (\<forall>k < calls r. \<forall>res body.
              p \<in> set provider_names \<and> fetches k = FetchResponse res \<and> body_read res = Inr body
              \<and> retried_failure (status_code res) body
              \<longrightarrow> k + 1 < calls r \<or> calls r = 3))"
proof -
  let ?request = "\<lambda>k. request_once stream p (fetches k)"
  let ?rw = "retryWithBackoff ?request 3 1000"
  let ?r = "callAI stream p fetches"
  have three: "0 < (3::nat)" by simp
  note att = retryWithBackoff_attempts [where fn = ?request and maxRetries = 3 and baseDelay = 1000, OF three]
  have c: "calls ?r = calls ?rw" and d: "delays ?r = delays ?rw" by (rule callAI_trace)+
  have last_attempt: "k = calls ?rw - 1" if "k < calls ?rw" "\<forall>e. ?request k = Inl e \<longrightarrow> rethrown_at_once e" for k
  proof (rule ccontr)
    assume "k \<noteq> calls ?rw - 1"
    with that(1) have "k < calls ?rw - 1" by simp
    from att(2) [OF this] that(2) show False by auto
  qed
  have bound: "1 \<le> calls ?r \<and> calls ?r \<le> 3 \<and> delays ?r = map (\<lambda>k. 1000 * 2 ^ k) [0 ..< calls ?r - 1]"
    using retryWithBackoff_shape [of ?request 3 1000] att(1) by (simp add: c d)
  have failed: "\<forall>k < calls ?r - 1. \<exists>e. ?request k = Inl e \<and> \<not> is_abort e"
    using att(2) abort_is_rethrown unfolding c by blast
  have succeeded: "\<forall>k < calls ?r. \<forall>v. ?request k = Inr v \<longrightarrow> calls ?r = k + 1 \<and> outcome ?r = Inr v"
  proof (intro allI impI)
    fix k v assume k: "k < calls ?r" and v: "?request k = Inr v"
    then have last: "k = calls ?rw - 1" by (intro last_attempt) (simp_all add: c)
    with v att(3) have "outcome ?rw = Inr v" by simp
    then have "outcome ?r = Inr v" by (rule callAI_outcome)
    with last att(1) show "calls ?r = k + 1 \<and> outcome ?r = Inr v" by (simp add: c)
  qed
  have cancelled: "\<forall>k < calls ?r. \<forall>e. ?request k = Inl e \<and> is_abort e
      \<longrightarrow> calls ?r = k + 1 \<and> outcome ?r = Inl (JsError ''Error'' ''Request cancelled by user'')"
  proof (intro allI impI)
    fix k e assume k: "k < calls ?r" and e: "?request k = Inl e \<and> is_abort e"
    then have re: "rethrown_at_once e" by (simp add: abort_is_rethrown)
    with k e have last: "k = calls ?rw - 1" by (intro last_attempt) (simp_all add: c)
    with e re att(4) have "outcome ?rw = Inl e" by simp
    with e have "outcome ?r = Inl (JsError ''Error'' ''Request cancelled by user'')"
      using callAI_outcome(2) [of stream p fetches e] by simp
    with last att(1) show "calls ?r = k + 1 \<and> outcome ?r = Inl (JsError ''Error'' ''Request cancelled by user'')"
      by (simp add: c)
  qed
  have retried: "\<forall>k < calls ?r. \<forall>res body.
      p \<in> set provider_names \<and> fetches k = FetchResponse res \<and> body_read res = Inr body
      \<and> retried_failure (status_code res) body
      \<longrightarrow> k + 1 < calls ?r \<or> calls ?r = 3"
  proof (intro allI impI)
    fix k res body
    assume k: "k < calls ?r"
      and a: "p \<in> set provider_names \<and> fetches k = FetchResponse res \<and> body_read res = Inr body
        \<and> retried_failure (status_code res) body"
    then have req: "?request k = Inl (status_error p (status_code res) body)"
      by (simp add: request_once_retried_failure)
    from a have nr: "\<not> rethrown_at_once (status_error p (status_code res) body)"
      by (simp add: retried_failure_is_retried)
    show "k + 1 < calls ?r \<or> calls ?r = 3"
    proof (cases "k + 1 < calls ?r")
      case False
      with k have "k = calls ?rw - 1" by (simp add: c)
      with req nr att(5) have "calls ?rw = 3" by simp
      then show ?thesis by (simp add: c)
    qed simp
  qed
  from bound failed succeeded cancelled retried retryWithBackoff_shape [of fn maxRetries baseDelay]
  show ?thesis unfolding Let_def by blast
qed

lemma retry_eval:
  "retry_loop fn (numeral m) b a lastError slept =
     (if a < numeral m then
        (case fn a of
           Inr v \<Rightarrow> \<lparr> outcome = Inr v, calls = a + 1, delays = slept \<rparr>
         | Inl e \<Rightarrow>
             if rethrown_at_once e then \<lparr> outcome = Inl e, calls = a + 1, delays = slept \<rparr>
             else if a + 1 < numeral m
               then retry_loop fn (numeral m) b (a + 1) (Some e) (slept @ [b * 2 ^ a])
               else retry_loop fn (numeral m) b (a + 1) (Some e) slept)
      else \<lparr> outcome = Inl (or_max_retries lastError), calls = a, delays = slept \<rparr>)"
  by (rule retry_loop.simps)

lemma example_requests:
  "request_once False ''OpenAI'' (FetchResponse unavailable)
     = Inl (JsError ''Error'' ''OpenAI server error (503). Please try again.'')"
  "request_once False ''OpenAI'' (FetchResponse rateLimited)
     = Inl (JsError ''Error'' ''Rate limit exceeded for OpenAI. Please try again later.'')"
  "request_once False ''OpenAI'' (FetchResponse notFound)
     = Inl (JsError ''Error'' ''AI API error (OpenAI): 404 Not Found'')"
  "request_once False ''OpenAI'' (FetchResponse unauthorized)
     = Inl (JsError ''Error'' ''Authentication failed: Invalid API key for OpenAI'')"
  "request_once False ''OpenAI'' (FetchResponse answered) = Inr answer"
  "request_once False ''OpenAI'' (FetchResponse notJson)
     = Inl (JsError ''SyntaxError'' ''Unexpected token o in JSON at position 0'')"
  "request_once True ''OpenAI'' (FetchResponse answered)
     = Inl (JsError ''Error'' ''Streaming not yet implemented in this context'')"
  "request_once False ''OpenAI'' aborted = Inl (JsError ''AbortError'' ''The user aborted a request.'')"
  by code_simp+

lemma example_classes:
  "retried_failure (status_code unavailable) ''Service Unavailable''"
  "retried_failure (status_code rateLimited) []"
  "retried_failure (status_code notFound) ''Not Found''"
  "body_read unavailable = Inr ''Service Unavailable''"
  "body_read rateLimited = Inr []"
  "body_read notFound = Inr ''Not Found''"
  "''OpenAI'' \<in> set provider_names"
  by (simp_all add: retried_failure_def unavailable_def rateLimited_def notFound_def provider_names_def
      str_includes_def sublist_code(3))

lemmas gateway_eval = callAI_def retryWithBackoff_def retry_eval example_requests str_includes_def
  sublist_code(3) Let_def is_abort_def

text \<open>
  C3 as stated fails: a request answered 429 each time, and one answered 404 each time,
  is sent three times, with the delays 1000 ms and 2000 ms in between.
\<close>

theorem gateway_retries_rate_limit_counterexample:
  "calls (callAI False ''OpenAI'' (\<lambda>k. FetchResponse rateLimited)) = 3
   \<and> delays (callAI False ''OpenAI'' (\<lambda>k. FetchResponse rateLimited)) = [1000, 2000]
   \<and> outcome (callAI False ''OpenAI'' (\<lambda>k. FetchResponse rateLimited))
       = Inl (JsError ''Error'' ''Rate limit exceeded for OpenAI. Please try again later.'')
   \<and> calls (callAI False ''OpenAI'' (\<lambda>k. FetchResponse notFound)) = 3
   \<and> delays (callAI False ''OpenAI'' (\<lambda>k. FetchResponse notFound)) = [1000, 2000]
   \<and> outcome (callAI False ''OpenAI'' (\<lambda>k. FetchResponse notFound))
       = Inl (JsError ''Error'' ''AI API error (OpenAI): 404 Not Found'')"
  by (simp add: gateway_eval)

text \<open>
  A response with status 200 is not yet a success: when its body is not JSON, or the
  request asks for a stream, the attempt throws and is retried like any other failure.
\<close>

lemma unusable_reply_is_retried:
  "calls (callAI False ''OpenAI'' (\<lambda>k. FetchResponse notJson)) = 3
   \<and> outcome (callAI False ''OpenAI'' (\<lambda>k. FetchResponse notJson))
       = Inl (JsError ''SyntaxError'' ''Unexpected token o in JSON at position 0'')
   \<and> calls (callAI True ''OpenAI'' (\<lambda>k. FetchResponse answered)) = 3
   \<and> outcome (callAI True ''OpenAI'' (\<lambda>k. FetchResponse answered))
       = Inl (JsError ''Error'' ''Streaming not yet implemented in this context'')"
  by (simp add: gateway_eval)

text \<open>
  The test for authentication failures looks for \<open>401\<close> or \<open>403\<close> in the message, and the
  messages \<open>callAI\<close> builds for these two statuses do not contain the number.
\<close>

lemma auth_failure_retried_as_written:
  "calls (callAI False ''OpenAI'' (\<lambda>k. FetchResponse unauthorized)) = 3
   \<and> outcome (callAI False ''OpenAI'' (\<lambda>k. FetchResponse unauthorized))
       = Inl (JsError ''Error'' ''Authentication failed: Invalid API key for OpenAI'')"
  by (simp add: gateway_eval)

theorem gateway_retry_policy_witness:
  "(let fetches = (\<lambda>k. if k = 0 then FetchResponse unavailable else FetchResponse answered);
        request = (\<lambda>k. request_once False ''OpenAI'' (fetches k));
        r = callAI False ''OpenAI'' fetches
    in calls r = 2 \<and> delays r = [1000] \<and> outcome r = Inr answer
       \<and> request 0 = Inl (JsError ''Error'' ''OpenAI server error (503). Please try again.'')
       \<and> request 1 = Inr answer
       \<and> ''OpenAI'' \<in> set provider_names \<and> fetches 0 = FetchResponse unavailable
       \<and> body_read unavailable = Inr ''Service Unavailable''
       \<and> retried_failure (status_code unavailable) ''Service Unavailable''
       \<and> (0 + 1 < calls r \<or> calls r = 3)
       \<and> (\<exists>e. request 0 = Inl e \<and> \<not> is_abort e))
   \<and> (let fetches = (\<lambda>k. if k = 0 then FetchResponse rateLimited else aborted);
           request = (\<lambda>k. request_once False ''OpenAI'' (fetches k));
           r = callAI False ''OpenAI'' fetches
       in request 1 = Inl (JsError ''AbortError'' ''The user aborted a request.'')
          \<and> is_abort (JsError ''AbortError'' ''The user aborted a request.'')
          \<and> calls r = 1 + 1 \<and> delays r = [1000]
          \<and> outcome r = Inl (JsError ''Error'' ''Request cancelled by user''))
   \<and> (let r = retryWithBackoff (\<lambda>k. request_once False ''OpenAI'' (FetchResponse notFound)) 2 500
       in calls r = 2 \<and> delays r = [500])"
proof -
  let ?f = "\<lambda>k::nat. if k = 0 then FetchResponse unavailable else FetchResponse answered"
  let ?g = "\<lambda>k::nat. if k = 0 then FetchResponse rateLimited else aborted"
  let ?h = "\<lambda>k::nat. request_once False ''OpenAI'' (FetchResponse notFound)"
  have f: "callAI False ''OpenAI'' ?f = \<lparr>outcome = Inr answer, calls = 2, delays = [1000]\<rparr>"
    by (simp add: gateway_eval)
  have g: "calls (callAI False ''OpenAI'' ?g) = 2"
    by (simp add: gateway_eval)
  have h: "calls (retryWithBackoff ?h 2 500) = 2"
    by (simp add: gateway_eval)
  have requests:
    "request_once False ''OpenAI'' (?f 0) = Inl (JsError ''Error'' ''OpenAI server error (503). Please try again.'')"
    "request_once False ''OpenAI'' (?f 1) = Inr answer"
    "request_once False ''OpenAI'' (?g 1) = Inl (JsError ''AbortError'' ''The user aborted a request.'')"
    by (simp_all add: example_requests)
  have abort: "is_abort (JsError ''AbortError'' ''The user aborted a request.'')"
    by (simp add: is_abort_def)
  note on_f = gateway_retry_policy [where stream = False and p = "''OpenAI''" and fetches = ?f
      and fn = ?h and maxRetries = 2 and baseDelay = 500, unfolded Let_def]
  note on_g = gateway_retry_policy [where stream = False and p = "''OpenAI''" and fetches = ?g
      and fn = ?h and maxRetries = 2 and baseDelay = 500, unfolded Let_def]
  from on_f have "delays (retryWithBackoff ?h 2 500) = map (\<lambda>k. 500 * 2 ^ k) [0 ..< calls (retryWithBackoff ?h 2 500) - 1]"
    by (elim conjE)
  then have backoff: "delays (retryWithBackoff ?h 2 500) = [500]"
    unfolding h by (simp add: upt_rec)
  from on_f have "\<forall>k < calls (callAI False ''OpenAI'' ?f). \<forall>res body.
      ''OpenAI'' \<in> set provider_names \<and> ?f k = FetchResponse res \<and> body_read res = Inr body
      \<and> retried_failure (status_code res) body
      \<longrightarrow> k + 1 < calls (callAI False ''OpenAI'' ?f) \<or> calls (callAI False ''OpenAI'' ?f) = 3"
    by (elim conjE)
  then have retried: "0 + 1 < calls (callAI False ''OpenAI'' ?f) \<or> calls (callAI False ''OpenAI'' ?f) = 3"
    using example_classes(1,4,7) by (simp add: f)
  from on_f have "\<forall>k < calls (callAI False ''OpenAI'' ?f) - 1.
      \<exists>e. request_once False ''OpenAI'' (?f k) = Inl e \<and> \<not> is_abort e"
    by (elim conjE)
  then have failed: "\<exists>e. request_once False ''OpenAI'' (?f 0) = Inl e \<and> \<not> is_abort e"
    by (simp add: f)
  from on_g have "delays (callAI False ''OpenAI'' ?g)
      = map (\<lambda>k. 1000 * 2 ^ k) [0 ..< calls (callAI False ''OpenAI'' ?g) - 1]"
    by (elim conjE)
  then have g_delays: "delays (callAI False ''OpenAI'' ?g) = [1000]"
    unfolding g by (simp add: upt_rec)
  from on_g have "\<forall>k < calls (callAI False ''OpenAI'' ?g). \<forall>e.
      request_once False ''OpenAI'' (?g k) = Inl e \<and> is_abort e
      \<longrightarrow> calls (callAI False ''OpenAI'' ?g) = k + 1
          \<and> outcome (callAI False ''OpenAI'' ?g) = Inl (JsError ''Error'' ''Request cancelled by user'')"
    by (elim conjE)
  moreover have "1 < calls (callAI False ''OpenAI'' ?g)" by (simp add: g)
  ultimately have "\<forall>e. request_once False ''OpenAI'' (?g 1) = Inl e \<and> is_abort e
      \<longrightarrow> calls (callAI False ''OpenAI'' ?g) = 1 + 1
          \<and> outcome (callAI False ''OpenAI'' ?g) = Inl (JsError ''Error'' ''Request cancelled by user'')"
    by blast
  with requests(3) abort have cancelled: "calls (callAI False ''OpenAI'' ?g) = 1 + 1
      \<and> outcome (callAI False ''OpenAI'' ?g) = Inl (JsError ''Error'' ''Request cancelled by user'')"
    by blast
  show ?thesis
    unfolding Let_def
    using f requests abort retried failed cancelled g_delays h backoff example_classes(1,4,7)
    by simp
qed


section \<open>Agent run loop: how a run ends\<close>

lemma catchError_break [simp]: "is_break (catchError m st)"
  "modelRequests (result_state (catchError m st)) = modelRequests st"
  "currentSteps (result_state (catchError m st)) = currentSteps st"
  by (simp_all add: catchError_def setAgentState_def)

lemma recordAndRefresh_break:
  "is_break (recordAndRefresh step res r st) \<longleftrightarrow> contextReply r = ContextUndefined"
  by (simp add: recordAndRefresh_def Let_def split: context_reply.splits BackendToFrontendMessage.splits)

lemma recordAndRefresh_fields [simp]:
  "modelRequests (result_state (recordAndRefresh step res r st)) = modelRequests st"
  "currentSteps (result_state (recordAndRefresh step res r st)) = currentSteps st @ [step\<lparr> result := Some res \<rparr>]"
  by (simp_all add: recordAndRefresh_def Let_def setAgentState_def catchError_def
      split: context_reply.splits BackendToFrontendMessage.splits)

lemma loopIteration_stopped:
  "abortRequested r \<or> stepLimit \<le> length (currentSteps st) \<Longrightarrow>
     loopIteration stepLimit st r = Break (if abortRequested r then ExitAborted else ExitMaxSteps) st"
  by (auto simp: loopIteration_def)

lemma loopIteration_break_iff:
  "is_break (loopIteration stepLimit st r) \<longleftrightarrow>
     abortRequested r \<or> stepLimit \<le> length (currentSteps st) \<or> receives_done r \<or> raises_error r"
proof (cases "abortRequested r \<or> stepLimit \<le> length (currentSteps st)")
  case True
  then show ?thesis by (auto simp: loopIteration_stopped)
next
  case False
  then show ?thesis
    by (auto simp: loopIteration_def Let_def receives_done_def raises_error_def
        recordAndRefresh_break is_navigate_def is_done_def
        split: sent.splits BackendToFrontendMessage.splits BrowserAction.splits nav_outcome.splits
          exec_reply.splits)
qed


lemma loopIteration_continue_steps:
  "loopIteration stepLimit st r = Continue st' \<Longrightarrow>
     length (currentSteps st') = length (currentSteps st) + 1 \<and> length (currentSteps st) < stepLimit"
proof -
  assume a: "loopIteration stepLimit st r = Continue st'"
  then have nb: "\<not> is_break (loopIteration stepLimit st r)" by simp
  then have ns: "\<not> abortRequested r" "length (currentSteps st) < stepLimit" "\<not> receives_done r"
    "\<not> raises_error r"
    by (auto simp: loopIteration_break_iff)
  have "currentSteps (result_state (loopIteration stepLimit st r))
      = currentSteps st @ [hd (rev (currentSteps (result_state (loopIteration stepLimit st r))))]"
    using ns
    by (auto simp: loopIteration_def Let_def receives_done_def raises_error_def
        is_navigate_def is_done_def
        split: sent.splits BackendToFrontendMessage.splits BrowserAction.splits nav_outcome.splits
          exec_reply.splits)
  then have "length (currentSteps (result_state (loopIteration stepLimit st r)))
      = length (currentSteps st) + 1"
    by (metis length_append_singleton Suc_eq_plus1)
  with a ns show ?thesis by simp
qed







lemmas loop_eval = loopIteration_def recordAndRefresh_def catchError_def setAgentState_def
  afterLoop_def initialLoopState_def is_done_def success_result_def failure_result_def
  startsWith_def DEFAULT_AGENT_CONFIG_def Let_def



section \<open>Agent state: the step counter\<close>

lemma createAgentState_counter:
  "stepCount (createAgentState task config now) = 0 \<and> steps (createAgentState task config now) = []"
  by (simp add: createAgentState_def Let_def)

lemma addStep_steps: "steps (addStep state step) = steps state @ [step]"
  by (simp add: addStep_def)

lemma addStep_stepCount: "stepCount (addStep state step) = stepCount state + 1"
  by (simp add: addStep_def)

lemma foldl_addStep_counter:
  "stepCount (foldl addStep state new) = stepCount state + length new
   \<and> steps (foldl addStep state new) = steps state @ new"
  by (induction new arbitrary: state) (simp_all add: addStep_def)

lemma catchError_counter:
  "counter_consistent st \<Longrightarrow> counter_consistent (result_state (catchError m st))"
  by (cases "agentState st") (simp_all add: counter_consistent_def catchError_def setAgentState_def)

lemma recordAndRefresh_counter:
  "counter_consistent (result_state (recordAndRefresh step res r st))"
proof (cases "agentState st")
  case None
  then show ?thesis
    by (simp add: counter_consistent_def recordAndRefresh_def catchError_def setAgentState_def Let_def
        split: context_reply.splits BackendToFrontendMessage.splits)
next
  case (Some a)
  then show ?thesis
    by (simp add: counter_consistent_def recordAndRefresh_def catchError_def setAgentState_def Let_def
        split: context_reply.splits BackendToFrontendMessage.splits)
qed

lemma done_counter:
  "n = length xs \<Longrightarrow>
     counter_consistent (setAgentState (\<lambda>prev. prev\<lparr>steps := xs, stepCount := n, isRunning := False\<rparr>) st)"
  by (cases "agentState st") (simp_all add: counter_consistent_def setAgentState_def)

lemma requests_counter [simp]:
  "counter_consistent (st\<lparr>modelRequests := n\<rparr>) = counter_consistent st"
  "counter_consistent (st\<lparr>tabUpdates := us\<rparr>) = counter_consistent st"
  "counter_consistent (st\<lparr>currentSteps := xs\<rparr>) = counter_consistent st"
  by (simp_all add: counter_consistent_def)

lemma loopIteration_counter:
  assumes "counter_consistent st"
  shows "counter_consistent (result_state (loopIteration stepLimit st r))"
proof (cases "abortRequested r \<or> \<not> length (currentSteps st) < stepLimit")
  case True
  with assms show ?thesis by (auto simp: loopIteration_def)
next
  case False
  let ?st0 = "st\<lparr>modelRequests := modelRequests st + 1\<rparr>"
  have c0: "counter_consistent ?st0" using assms by simp
  show ?thesis
  proof (cases "stepReply r")
    case (LastError m)
    with False c0 show ?thesis by (simp add: loopIteration_def Let_def catchError_counter)
  next
    case (Response msg)
    show ?thesis
    proof (cases msg)
      case (ERROR m)
      with Response False c0 show ?thesis by (simp add: loopIteration_def Let_def catchError_counter)
    next
      case (AGENT_STEP step)
      show ?thesis
      proof (cases "is_done (action step)")
        case True
        with AGENT_STEP Response False show ?thesis
          by (simp add: loopIteration_def Let_def done_counter)
      next
        case nd: False
        with AGENT_STEP Response False c0 show ?thesis
          by (simp add: loopIteration_def Let_def recordAndRefresh_counter catchError_counter
              split: BrowserAction.splits nav_outcome.splits exec_reply.splits)
      qed
    next
      case (PAGE_CONTEXT x)
      with Response False c0 show ?thesis by (simp add: loopIteration_def Let_def catchError_counter)
    next
      case (AGENT_ACTION_RESULT x)
      with Response False c0 show ?thesis by (simp add: loopIteration_def Let_def catchError_counter)
    next
      case OTHER_MESSAGE
      with Response False c0 show ?thesis by (simp add: loopIteration_def Let_def catchError_counter)
    qed
  qed
qed

lemma initial_counter: "counter_consistent (initialLoopState task ctx now)"
  by (simp add: counter_consistent_def initialLoopState_def)

text \<open>
  C9. \<open>createAgentState\<close> starts with no step and a counter of zero; \<open>addStep\<close> appends
  exactly the given step and adds exactly one to the counter, whatever the step's result
  is; so after any sequence of \<open>addStep\<close> calls on a fresh state the counter equals the
  number of steps, and it never decreases. The run loop keeps the same invariant on the
  component state: it starts consistent, every iteration leaves it consistent, and an
  iteration that executes an action records exactly one more step, whether the action
  succeeded or failed.
\<close>

theorem stepCount_equals_length_steps:
  "stepCount (createAgentState task config now) = length (steps (createAgentState task config now))
   \<and> steps (createAgentState task config now) = []
   \<and> steps (addStep state step) = steps state @ [step]
   \<and> stepCount (addStep state step) = stepCount state + 1
   \<and> stepCount state \<le> stepCount (addStep state step)
   \<and> (stepCount state = length (steps state)
        \<longrightarrow> stepCount (addStep state step) = length (steps (addStep state step)))
   \<and> stepCount (foldl addStep (createAgentState task config now) new)
        = length (steps (foldl addStep (createAgentState task config now) new))
   \<and> stepCount (foldl addStep (createAgentState task config now) new) = length new
   \<and> counter_consistent (initialLoopState task ctx now)
   \<and> (counter_consistent st \<longrightarrow> counter_consistent (result_state (loopIteration stepLimit st r)))
   \<and> (loopIteration stepLimit st r = Continue st'
        \<longrightarrow> length (currentSteps st') = length (currentSteps st) + 1)"
  using foldl_addStep_counter [of "createAgentState task config now" new]
    loopIteration_counter [of st stepLimit r] loopIteration_continue_steps [of stepLimit st r st']
    initial_counter [of task ctx now]
  by (simp add: createAgentState_counter addStep_steps addStep_stepCount)

theorem stepCount_equals_length_steps_witness:
  "(let failed = \<lparr>step_id = ''s1'', thought = ''press it'', action = Click ''Submit'' None,
                   result = Some (failure_result ''Element not found''), timestamp = 5\<rparr>;
        state = createAgentState ''task'' None 0;
        ctx = \<lparr>url = ''https://example.com/'', title = ''Example'', mainContentSnippet = None, hash = None\<rparr>;
        st = initialLoopState ''task'' ctx 0;
        r = \<lparr>abortRequested = False,
              stepReply = Response (AGENT_STEP (failed\<lparr>result := None\<rparr>)),
              navReply = NoActiveTab, execReply = ExecResult (failure_result ''Element not found''),
              contextReply = ContextMessage (PAGE_CONTEXT ctx)\<rparr>;
        st' = st\<lparr>currentSteps := [failed],
                 agentState := Some (state\<lparr>steps := [failed], stepCount := 1\<rparr>),
                 modelRequests := 1\<rparr>
    in stepCount state = length (steps state)
       \<and> stepCount (addStep state failed) = length (steps (addStep state failed))
       \<and> stepCount (addStep state failed) = 1
       \<and> counter_consistent st
       \<and> loopIteration 20 st r = Continue st'
       \<and> counter_consistent st'
       \<and> length (currentSteps st') = length (currentSteps st) + 1)"
  using stepCount_equals_length_steps [where task = "''task''" and config = None and now = 0
      and state = "createAgentState ''task'' None 0"
      and step = "\<lparr>step_id = ''s1'', thought = ''press it'', action = Click ''Submit'' None,
                   result = Some (failure_result ''Element not found''), timestamp = 5\<rparr>"
      and new = "[]" and stepLimit = 20
      and ctx = "\<lparr>url = ''https://example.com/'', title = ''Example'', mainContentSnippet = None, hash = None\<rparr>"
      and st = "initialLoopState ''task''
         \<lparr>url = ''https://example.com/'', title = ''Example'', mainContentSnippet = None, hash = None\<rparr> 0"
      and r = "\<lparr>abortRequested = False,
              stepReply = Response (AGENT_STEP \<lparr>step_id = ''s1'', thought = ''press it'',
                 action = Click ''Submit'' None, result = None, timestamp = 5\<rparr>),
              navReply = NoActiveTab, execReply = ExecResult (failure_result ''Element not found''),
              contextReply = ContextMessage (PAGE_CONTEXT
                \<lparr>url = ''https://example.com/'', title = ''Example'', mainContentSnippet = None, hash = None\<rparr>)\<rparr>"]
  by (simp add: loop_eval counter_consistent_def createAgentState_def mergeConfig_def addStep_def)

section \<open>Element resolver: visibility gate\<close>

lemma firstAccepted_visible: "firstAccepted True found = Some el \<Longrightarrow> isVisible el"
  by (induction found) (auto split: option.splits if_splits)

lemma smartFind_default_visible:
  "visibleOption \<noteq> Some False \<Longrightarrow> smartFind doc selector visibleOption = Some el \<Longrightarrow> isVisible el"
  by (cases visibleOption)
    (auto simp del: firstAccepted.simps simp add: smartFind_def Let_def dest: firstAccepted_visible)

lemma isVisible_conditions:
  "isVisible el \<Longrightarrow> width (rect el) \<noteq> 0 \<and> height (rect el) \<noteq> 0 \<and> display (style el) \<noteq> ''none''
     \<and> visibility (style el) \<noteq> ''hidden'' \<and> opacity (style el) \<noteq> ''0''"
  by (auto simp: isVisible_def split: if_splits)

lemma find_first_found:
  "List.find (\<lambda>found. found \<noteq> None) (map f ds) = Some found \<Longrightarrow> \<exists>d\<in>set ds. f d = found"
  by (induction ds) (auto split: if_splits)

lemma waitForElement_cases:
  assumes "waitForElement page selector = Some el"
  shows "smartFind (initial page) selector None = Some el
     \<or> (\<exists>d\<in>set (mutations page). smartFind d selector None = Some el)
     \<or> smartFind (atTimeout page) selector None = Some el"
proof (cases "smartFind (initial page) selector None")
  case (Some e)
  with assms show ?thesis by (simp add: waitForElement_def)
next
  case None
  show ?thesis
  proof (cases "List.find (\<lambda>found. found \<noteq> None)
      (map (\<lambda>doc. smartFind doc selector None) (mutations page))")
    case inner: None
    with None assms show ?thesis by (simp add: waitForElement_def)
  next
    case (Some found)
    with None assms have "found = Some el" by (simp add: waitForElement_def)
    with find_first_found [OF Some] show ?thesis by blast
  qed
qed

lemma waitForElement_visible: "waitForElement page selector = Some el \<Longrightarrow> isVisible el"
  using waitForElement_cases [of page selector el] smartFind_default_visible [of None _ selector el]
  by blast

text \<open>
  C8. With the \<open>visible\<close> option absent or true, an element that \<open>smartFind\<close> returns
  passes \<open>isVisible\<close>, whichever strategy found it: its box has non-zero width and height,
  its \<open>display\<close> is not \<open>none\<close>, its \<open>visibility\<close> is not \<open>hidden\<close> and its \<open>opacity\<close> is
  not \<open>0\<close>. The same holds for what \<open>waitForElement\<close> returns.
\<close>

theorem smartFind_returns_only_visible:
  "(visibleOption \<noteq> Some False \<and> smartFind doc selector visibleOption = Some el
      \<longrightarrow> isVisible el \<and> width (rect el) \<noteq> 0 \<and> height (rect el) \<noteq> 0
          \<and> display (style el) \<noteq> ''none'' \<and> visibility (style el) \<noteq> ''hidden''
          \<and> opacity (style el) \<noteq> ''0'')
   \<and> (waitForElement page selector = Some el \<longrightarrow> isVisible el)"
  using smartFind_default_visible [of visibleOption doc selector el] isVisible_conditions [of el]
    waitForElement_visible [of page selector el]
  by blast


lemma examples_visible: "isVisible shownButton" "\<not> isVisible hiddenButton" "isVisible helpLink"
  by code_simp+

lemma example_smartFind:
  "smartFind examplePage ''Search'' None = Some shownButton"
  "smartFind examplePage ''button'' None = None"
  "tryCSS examplePage ''button'' = Some hiddenButton"
  "smartFind examplePage ''button'' (Some False) = Some hiddenButton"
  "waitForElement \<lparr>initial = emptyPage, mutations = [emptyPage, examplePage], atTimeout = emptyPage\<rparr>
     ''Search'' = Some shownButton"
  by code_simp+

theorem smartFind_returns_only_visible_witness:
  "smartFind examplePage ''Search'' None = Some shownButton \<and> isVisible shownButton
   \<and> tryCSS examplePage ''button'' = Some hiddenButton \<and> \<not> isVisible hiddenButton
   \<and> smartFind examplePage ''button'' None = None
   \<and> waitForElement \<lparr>initial = emptyPage, mutations = [emptyPage, examplePage], atTimeout = emptyPage\<rparr>
        ''Search'' = Some shownButton"
  using smartFind_returns_only_visible [where visibleOption = None and doc = examplePage
      and selector = "''Search''" and el = shownButton
      and page = "\<lparr>initial = emptyPage, mutations = [emptyPage, examplePage], atTimeout = emptyPage\<rparr>"]
    example_smartFind examples_visible
  by simp

section \<open>Element resolver: fuzzy text match\<close>

lemma matched_words_list_ex:
  "filter (\<lambda>sw. list_ex (\<lambda>tw. str_includes tw sw \<or> str_includes sw tw) (split_ws target)) (split_ws search)
     = matched_words search target"
  by (simp add: matched_words_def list_ex_iff)

lemma findByText_loop_fuzzy:
  assumes "\<forall>b. bestMatch = Some b \<longrightarrow> score b = calculateMatchScore n (element_text (match_element b))"
  shows "(case findByText_loop n False visible els bestMatch of
            None \<Rightarrow> bestMatch = None
                     \<and> filter (\<lambda>el. \<not> (visible \<and> \<not> isVisible el)
                          \<and> (str_includes (element_text el) n \<or> str_includes n (element_text el))) els = []
          | Some el \<Rightarrow>
              (el \<in> set (filter (\<lambda>el. \<not> (visible \<and> \<not> isVisible el)
                          \<and> (str_includes (element_text el) n \<or> str_includes n (element_text el))) els)
               \<or> (\<exists>b. bestMatch = Some b \<and> match_element b = el))
              \<and> (\<forall>c\<in>set (filter (\<lambda>el. \<not> (visible \<and> \<not> isVisible el)
                          \<and> (str_includes (element_text el) n \<or> str_includes n (element_text el))) els).
                    calculateMatchScore n (element_text c) \<le> calculateMatchScore n (element_text el))
              \<and> (\<forall>b. bestMatch = Some b \<longrightarrow>
                    calculateMatchScore n (element_text (match_element b))
                      \<le> calculateMatchScore n (element_text el)))"
  using assms
proof (induction els arbitrary: bestMatch)
  case Nil
  then show ?case by (cases bestMatch) simp_all
next
  case (Cons e es)
  let ?cand = "\<lambda>el. \<not> (visible \<and> \<not> isVisible el)
                          \<and> (str_includes (element_text el) n \<or> str_includes n (element_text el))"
  show ?case
  proof (cases "?cand e")
    case False
    then have step: "findByText_loop n False visible (e # es) bestMatch = findByText_loop n False visible es bestMatch"
      by (auto simp: Let_def element_text_def)
    have flt: "filter ?cand (e # es) = filter ?cand es" using False by simp
    show ?thesis unfolding step flt by (rule Cons.IH [OF Cons.prems])
  next
    case True
    let ?s = "calculateMatchScore n (element_text e)"
    show ?thesis
    proof (cases "case bestMatch of None \<Rightarrow> True | Some b \<Rightarrow> ?s > score b")
      case better: True
      let ?new = "Some \<lparr> match_element = e, score = ?s, match_method = ''text'' \<rparr>"
      have step: "findByText_loop n False visible (e # es) bestMatch = findByText_loop n False visible es ?new"
        using True better by (cases bestMatch) (auto simp: Let_def element_text_def)
      have inv: "\<forall>b. ?new = Some b \<longrightarrow> score b = calculateMatchScore n (element_text (match_element b))"
        by simp
      have old: "\<forall>b. bestMatch = Some b \<longrightarrow> calculateMatchScore n (element_text (match_element b)) \<le> ?s"
        using better Cons.prems by (cases bestMatch) auto
      have flt: "filter ?cand (e # es) = e # filter ?cand es" using True by simp
      show ?thesis
      proof (cases "findByText_loop n False visible es ?new")
        case None
        with Cons.IH [OF inv] show ?thesis by simp
      next
        case (Some el)
        with Cons.IH [OF inv] have r: "el \<in> set (filter ?cand es) \<or> e = el"
          "\<forall>c\<in>set (filter ?cand es). calculateMatchScore n (element_text c)
              \<le> calculateMatchScore n (element_text el)"
          "?s \<le> calculateMatchScore n (element_text el)"
          by auto
        have "\<forall>b. bestMatch = Some b \<longrightarrow>
            calculateMatchScore n (element_text (match_element b)) \<le> calculateMatchScore n (element_text el)"
          using old r(3) by force
        with r show ?thesis unfolding step flt Some by auto
      qed
    next
      case worse: False
      then obtain b where b: "bestMatch = Some b" "?s \<le> score b" by (cases bestMatch) auto
      have sb: "score b = calculateMatchScore n (element_text (match_element b))"
        using Cons.prems b by simp
      have step: "findByText_loop n False visible (e # es) bestMatch = findByText_loop n False visible es bestMatch"
        using True worse by (cases bestMatch) (auto simp: Let_def element_text_def)
      have flt: "filter ?cand (e # es) = e # filter ?cand es" using True by simp
      show ?thesis
      proof (cases "findByText_loop n False visible es bestMatch")
        case None
        with Cons.IH [OF Cons.prems] b show ?thesis by simp
      next
        case (Some el)
        with Cons.IH [OF Cons.prems] b have r:
          "el \<in> set (filter ?cand es) \<or> match_element b = el"
          "\<forall>c\<in>set (filter ?cand es). calculateMatchScore n (element_text c)
              \<le> calculateMatchScore n (element_text el)"
          "calculateMatchScore n (element_text (match_element b)) \<le> calculateMatchScore n (element_text el)"
          by auto
        have "?s \<le> calculateMatchScore n (element_text el)" using b(2) sb r(3) by linarith
        with r b show ?thesis unfolding step flt Some by auto
      qed
    qed
  qed
qed

lemma findByText_fuzzy_best:
  "(case findByText doc needle False visible of
      None \<Rightarrow> fuzzy_candidates doc needle visible = []
    | Some el \<Rightarrow> el \<in> set (fuzzy_candidates doc needle visible)
        \<and> (\<forall>c\<in>set (fuzzy_candidates doc needle visible).
              calculateMatchScore (trim (toLowerCase needle)) (element_text c)
                \<le> calculateMatchScore (trim (toLowerCase needle)) (element_text el)))"
  using findByText_loop_fuzzy [of None "trim (toLowerCase needle)" visible "querySelectorAll doc text_selector"]
  by (simp add: findByText_def fuzzy_candidates_def split: option.splits)

text \<open>
  C7. The score of \<open>calculateMatchScore\<close>, case by case in the order of the code: 100 for
  equal strings; \<open>80 + (searchLen / targetLen) * 20\<close> when the target contains the search;
  \<open>60 + (targetLen / searchLen) * 20\<close> when the search contains the target; otherwise the
  fraction of the search words that overlap a target word, times 50. The fuzzy pass of
  \<open>findByText\<close> returns null exactly when no element is a candidate, and otherwise a
  candidate whose score no other candidate exceeds. Scores are exact real numbers here.
\<close>

theorem fuzzy_match_score_and_best:
  "(search = target \<longrightarrow> calculateMatchScore search target = 100)
   \<and> (search \<noteq> target \<and> str_includes target search \<longrightarrow>
        calculateMatchScore search target = 80 + (real (length search) / real (length target)) * 20)
   \<and> (search \<noteq> target \<and> \<not> str_includes target search \<and> str_includes search target \<longrightarrow>
        calculateMatchScore search target = 60 + (real (length target) / real (length search)) * 20)
   \<and> (search \<noteq> target \<and> \<not> str_includes target search \<and> \<not> str_includes search target \<longrightarrow>
        calculateMatchScore search target
          = (real (length (matched_words search target)) / real (length (split_ws search))) * 50)
   \<and> (findByText doc needle False visible = None \<longleftrightarrow> fuzzy_candidates doc needle visible = [])
   \<and> (findByText doc needle False visible = Some el \<longrightarrow>
        el \<in> set (fuzzy_candidates doc needle visible)
        \<and> (\<forall>c\<in>set (fuzzy_candidates doc needle visible).
              calculateMatchScore (trim (toLowerCase needle)) (element_text c)
                \<le> calculateMatchScore (trim (toLowerCase needle)) (element_text el)))"
proof -
  have no_match: "findByText doc needle False visible = None \<longleftrightarrow> fuzzy_candidates doc needle visible = []"
    using findByText_fuzzy_best [of doc needle visible] by (auto split: option.splits)
  have a_match: "findByText doc needle False visible = Some el \<longrightarrow>
        el \<in> set (fuzzy_candidates doc needle visible)
        \<and> (\<forall>c\<in>set (fuzzy_candidates doc needle visible).
              calculateMatchScore (trim (toLowerCase needle)) (element_text c)
                \<le> calculateMatchScore (trim (toLowerCase needle)) (element_text el))"
    using findByText_fuzzy_best [of doc needle visible] by (auto split: option.splits)
  show ?thesis
    using no_match a_match by (simp add: calculateMatchScore_def Let_def matched_words_list_ex)
qed


lemma example_scores:
  "calculateMatchScore ''search'' ''search'' = 100"
  "calculateMatchScore ''search'' ''search help and tips'' = 86"
  "calculateMatchScore ''search help'' ''search'' = 60 + (6 / 11) * 20"
  "calculateMatchScore ''find search box'' ''search here'' = (1 / 3) * 50"
  by code_simp+

lemma example_words:
  "''find search box'' \<noteq> ''search here''"
  "\<not> str_includes ''search here'' ''find search box''"
  "\<not> str_includes ''find search box'' ''search here''"
  "split_ws ''find search box'' = [''find'', ''search'', ''box'']"
  "filter (\<lambda>sw. list_ex (\<lambda>tw. str_includes tw sw \<or> str_includes sw tw) (split_ws ''search here''))
     (split_ws ''find search box'') = [''search'']"
  by code_simp+

lemma example_fuzzy:
  "findByText examplePage ''Search'' False True = Some shownButton"
  "filter (\<lambda>el. \<not> (True \<and> \<not> isVisible el)
                 \<and> (str_includes (element_text el) (trim (toLowerCase ''Search''))
                      \<or> str_includes (trim (toLowerCase ''Search'')) (element_text el)))
       (querySelectorAll examplePage text_selector) = [helpLink, shownButton]"
  "trim (toLowerCase ''Search'') = ''search''"
  "element_text helpLink = ''search help and tips''"
  "element_text shownButton = ''search''"
  by code_simp+

theorem fuzzy_match_score_and_best_witness:
  "''find search box'' \<noteq> ''search here'' \<and> \<not> str_includes ''search here'' ''find search box''
   \<and> \<not> str_includes ''find search box'' ''search here''
   \<and> matched_words ''find search box'' ''search here'' = [''search'']
   \<and> calculateMatchScore ''find search box'' ''search here'' = (1 / 3) * 50
   \<and> calculateMatchScore ''search'' ''search'' = 100
   \<and> calculateMatchScore ''search'' ''search help and tips'' = 86
   \<and> calculateMatchScore ''search help'' ''search'' = 60 + (6 / 11) * 20
   \<and> findByText examplePage ''Search'' False True = Some shownButton
   \<and> fuzzy_candidates examplePage ''Search'' True = [helpLink, shownButton]
   \<and> calculateMatchScore ''search'' (element_text helpLink)
        \<le> calculateMatchScore ''search'' (element_text shownButton)"
  using fuzzy_match_score_and_best [where search = "''find search box''" and target = "''search here''"
      and doc = examplePage and needle = "''Search''" and visible = True and el = shownButton]
    example_scores example_words example_fuzzy
  by (simp add: fuzzy_candidates_def matched_words_list_ex [symmetric])

section \<open>Action executor: click on a missing target\<close>

lemma executeClick_not_found:
  assumes "smartFind (initial page) (click_target selector hint) None = None"
    and "\<forall>d\<in>set (mutations page). smartFind d (click_target selector hint) None = None"
    and "smartFind (atTimeout page) (click_target selector hint) None = None"
  shows \<open>executeClick page selector hint
           = (failure_result (''Element not found: "'' @ click_target selector hint @ ''"''), None)\<close>
proof -
  have "List.find (\<lambda>found. found \<noteq> None)
      (map (\<lambda>doc. smartFind doc (click_target selector hint) None) (mutations page)) = None"
    using assms(2) by (induction "mutations page") (auto simp: find_None_iff)
  with assms have "waitForElement page (click_target selector hint) = None"
    by (simp add: waitForElement_def)
  with assms(1) show ?thesis by (simp add: executeClick_def click_target_def Let_def)
qed

lemma failed_action_is_recorded:
  assumes "\<not> abortRequested r" and "length (currentSteps st) < stepLimit"
    and "stepReply r = Response (AGENT_STEP step)" and "action step = Click selector hint"
    and "execReply r = ExecResult res" and "contextReply r \<noteq> ContextUndefined"
  shows "\<not> is_break (loopIteration stepLimit st r)
     \<and> currentSteps (result_state (loopIteration stepLimit st r)) = currentSteps st @ [step\<lparr>result := Some res\<rparr>]
     \<and> map_option isRunning (agentState (result_state (loopIteration stepLimit st r)))
         = map_option isRunning (agentState st)
     \<and> map_option state_error (agentState (result_state (loopIteration stepLimit st r)))
         = map_option state_error (agentState st)
     \<and> errorShown (result_state (loopIteration stepLimit st r)) = errorShown st"
  using assms
  by (cases "agentState st")
    (auto simp: loopIteration_def Let_def is_done_def recordAndRefresh_def setAgentState_def
      split: context_reply.splits BackendToFrontendMessage.splits)

text \<open>
  C5 (as amended). When no element matches the click target, neither when
  \<open>executeClick\<close> starts nor at any mutation nor when the wait times out, the result is
  \<open>{success: false, error: 'Element not found: "<target>"'}\<close>, with the target between
  double quotes. The iteration that receives this result does not end the loop: the
  step is recorded with the failed result, and the running flag, the error field and the
  shown error are unchanged.
\<close>

theorem click_not_found_is_recorded:
  assumes "smartFind (initial page) (click_target selector hint) None = None"
    and "\<forall>d\<in>set (mutations page). smartFind d (click_target selector hint) None = None"
    and "smartFind (atTimeout page) (click_target selector hint) None = None"
    and "\<not> abortRequested r" and "length (currentSteps st) < stepLimit"
    and "stepReply r = Response (AGENT_STEP step)" and "action step = Click selector hint"
    and "execReply r = ExecResult (fst (executeClick page selector hint))"
    and "contextReply r \<noteq> ContextUndefined"
  shows \<open>fst (executeClick page selector hint)
           = \<lparr>success = False, error = Some (''Element not found: "'' @ click_target selector hint @ ''"''),
              data = None, screenshot = None\<rparr>
         \<and> snd (executeClick page selector hint) = None
         \<and> \<not> is_break (loopIteration stepLimit st r)
         \<and> currentSteps (result_state (loopIteration stepLimit st r))
             = currentSteps st @ [step\<lparr>result := Some (fst (executeClick page selector hint))\<rparr>]
         \<and> map_option isRunning (agentState (result_state (loopIteration stepLimit st r)))
             = map_option isRunning (agentState st)
         \<and> map_option state_error (agentState (result_state (loopIteration stepLimit st r)))
             = map_option state_error (agentState st)
         \<and> errorShown (result_state (loopIteration stepLimit st r)) = errorShown st\<close>
  using executeClick_not_found [OF assms(1-3)] failed_action_is_recorded [OF assms(4-9)]
  by (simp add: failure_result_def)

lemma example_not_found:
  "smartFind emptyPage ''Submit'' None = None"
  "smartFind examplePage ''Submit'' None = None"
  by code_simp+

text \<open>
  C5 as stated fails on the message: for the target \<open>Submit\<close> on a page with no element
  the error is \<open>Element not found: "Submit"\<close>, not \<open>Element not found: Submit\<close>.
\<close>

theorem click_not_found_message_counterexample:
  \<open>fst (executeClick \<lparr>initial = emptyPage, mutations = [], atTimeout = emptyPage\<rparr> ''Submit'' None)
     = \<lparr>success = False, error = Some ''Element not found: "Submit"'', data = None, screenshot = None\<rparr>
   \<and> fst (executeClick \<lparr>initial = emptyPage, mutations = [], atTimeout = emptyPage\<rparr> ''Submit'' None)
     \<noteq> \<lparr>success = False, error = Some ''Element not found: Submit'', data = None, screenshot = None\<rparr>\<close>
  by (simp add: executeClick_def waitForElement_def example_not_found failure_result_def
      click_target_def Let_def)

theorem click_not_found_is_recorded_witness:
  \<open>(let page = \<lparr>initial = emptyPage, mutations = [examplePage], atTimeout = examplePage\<rparr>;
        failed = \<lparr>success = False, error = Some ''Element not found: "Submit"'', data = None,
                  screenshot = None\<rparr>;
        step = \<lparr>step_id = ''s1'', thought = ''send the form'', action = Click ''Submit'' None,
                result = None, timestamp = 10\<rparr>;
        r = \<lparr>abortRequested = False, stepReply = Response (AGENT_STEP step), navReply = NoActiveTab,
              execReply = ExecResult (fst (executeClick page ''Submit'' None)),
              contextReply = ContextMessage OTHER_MESSAGE\<rparr>;
        st = initialLoopState ''send the form'' \<lparr>url = ''https://example.com/'', title = ''Example'',
               mainContentSnippet = None, hash = None\<rparr> 0
    in smartFind (initial page) (click_target ''Submit'' None) None = None
       \<and> (\<forall>d\<in>set (mutations page). smartFind d (click_target ''Submit'' None) None = None)
       \<and> smartFind (atTimeout page) (click_target ''Submit'' None) None = None
       \<and> \<not> abortRequested r \<and> length (currentSteps st) < 20
       \<and> fst (executeClick page ''Submit'' None) = failed
       \<and> loopIteration 20 st r = Continue (st\<lparr>currentSteps := [step\<lparr>result := Some failed\<rparr>],
            agentState := Some \<lparr>isRunning = True, isPaused = False, currentTask = ''send the form'',
               steps = [step\<lparr>result := Some failed\<rparr>], stepCount = 1, maxSteps = 20, startTime = 0,
               state_error = None\<rparr>,
            modelRequests := 1\<rparr>))\<close>
  using click_not_found_is_recorded [where page = "\<lparr>initial = emptyPage, mutations = [examplePage], atTimeout = examplePage\<rparr>"
      and selector = "''Submit''" and hint = None and stepLimit = 20
      and step = "\<lparr>step_id = ''s1'', thought = ''send the form'', action = Click ''Submit'' None,
                result = None, timestamp = 10\<rparr>"
      and r = "\<lparr>abortRequested = False, stepReply = Response (AGENT_STEP \<lparr>step_id = ''s1'', thought = ''send the form'', action = Click ''Submit'' None,
                result = None, timestamp = 10\<rparr>), navReply = NoActiveTab,
              execReply = ExecResult (fst (executeClick \<lparr>initial = emptyPage, mutations = [examplePage], atTimeout = examplePage\<rparr> ''Submit'' None)),
              contextReply = ContextMessage OTHER_MESSAGE\<rparr>"
      and st = "initialLoopState ''send the form'' \<lparr>url = ''https://example.com/'', title = ''Example'',
               mainContentSnippet = None, hash = None\<rparr> 0"]
    example_not_found
  by (simp add: click_target_def executeClick_def waitForElement_def failure_result_def
      loopIteration_def recordAndRefresh_def setAgentState_def initialLoopState_def is_done_def
      DEFAULT_AGENT_CONFIG_def Let_def)

section \<open>Response parser: what is extracted and when it is a decision\<close>

lemma split_at_first_none:
  "pat \<noteq> [] \<Longrightarrow> \<not> sublist pat s \<Longrightarrow> split_at_first pat seen s = None"
  by (induction s arbitrary: seen) (auto simp: sublist_Cons_right)

lemma split_at_first_found:
  assumes "pat \<noteq> []"
    and "\<forall>ys zs. xs = ys @ zs \<and> zs \<noteq> [] \<longrightarrow> \<not> prefix pat (zs @ pat @ rest)"
  shows "split_at_first pat seen (xs @ pat @ rest) = Some (seen @ xs, rest)"
  using assms(2)
proof (induction xs arbitrary: seen)
  case Nil
  from assms(1) obtain p ps where "pat = p # ps" by (cases pat) auto
  then show ?case by simp
next
  case (Cons x xs)
  from Cons.prems have "\<not> prefix pat ((x # xs) @ pat @ rest)" by blast
  moreover have "\<forall>ys zs. xs = ys @ zs \<and> zs \<noteq> [] \<longrightarrow> \<not> prefix pat (zs @ pat @ rest)"
  proof (intro allI impI)
    fix ys zs assume "xs = ys @ zs \<and> zs \<noteq> []"
    then have "x # xs = (x # ys) @ zs \<and> zs \<noteq> []" by simp
    with Cons.prems show "\<not> prefix pat (zs @ pat @ rest)" by blast
  qed
  ultimately show ?case using Cons.IH [of "seen @ [x]"] by simp
qed

lemma fence_not_early:
  assumes "\<not> sublist ''```'' xs" and "xs = [] \<or> last xs \<noteq> CHR ''`''"
  shows "\<forall>ys zs. xs = ys @ zs \<and> zs \<noteq> [] \<longrightarrow> \<not> prefix ''```'' (zs @ ''```'' @ rest)"
proof (intro allI impI notI)
  fix ys zs assume h: "xs = ys @ zs \<and> zs \<noteq> []" and p: "prefix ''```'' (zs @ ''```'' @ rest)"
  from h assms(2) have l: "last zs \<noteq> CHR ''`''" by auto
  consider a where "zs = [a]" | a b where "zs = [a, b]" | a b c ws where "zs = a # b # c # ws"
    using h by (cases zs rule: list.exhaust) (auto simp: neq_Nil_conv, metis list.exhaust)
  then show False
  proof cases
    case 1
    with p l show False by simp
  next
    case 2
    with p l show False by auto
  next
    case 3
    with p have "zs = ''```'' @ ws" by auto
    with h have "xs = ys @ ''```'' @ ws" by simp
    then have "sublist ''```'' xs" unfolding sublist_def by blast
    with assms(1) show False by simp
  qed
qed

lemma split_at_fence:
  "\<not> sublist ''```'' xs \<Longrightarrow> xs = [] \<or> last xs \<noteq> CHR ''`''
     \<Longrightarrow> split_at_first ''```'' seen (xs @ ''```'' @ rest) = Some (seen @ xs, rest)"
  by (rule split_at_first_found [OF _ fence_not_early]) simp_all


lemma dropWhile_keeps:
  "xs \<noteq> [] \<Longrightarrow> \<not> P (hd xs) \<Longrightarrow>
     \<exists>b. dropWhile P (before @ xs @ rest) = b @ xs @ rest \<and> set b \<subseteq> set before"
proof (induction before)
  case Nil
  then have "dropWhile P (xs @ rest) = xs @ rest" by (cases xs) auto
  then show ?case by (intro exI [of _ "[]"]) simp
next
  case (Cons c cs)
  show ?case
  proof (cases "P c")
    case True
    with Cons show ?thesis by auto
  next
    case False
    then show ?thesis by (intro exI [of _ "c # cs"]) simp
  qed
qed

lemma trim_keeps:
  assumes "xs \<noteq> []" "\<not> is_js_space (hd xs)" "\<not> is_js_space (last xs)"
  shows "\<exists>b a. trim (before @ xs @ rest) = b @ xs @ a \<and> set b \<subseteq> set before \<and> set a \<subseteq> set rest"
proof -
  from dropWhile_keeps [of xs is_js_space before rest] assms obtain b where
    b: "dropWhile is_js_space (before @ xs @ rest) = b @ xs @ rest" "set b \<subseteq> set before" by blast
  have r: "rev xs \<noteq> []" "\<not> is_js_space (hd (rev xs))" using assms by (simp_all add: hd_rev)
  from dropWhile_keeps [of "rev xs" is_js_space "rev rest" "rev b"] r obtain a' where
    a': "dropWhile is_js_space (rev rest @ rev xs @ rev b) = a' @ rev xs @ rev b" "set a' \<subseteq> set (rev rest)"
    by blast
  have "trim (before @ xs @ rest) = b @ xs @ rev a'"
    unfolding trim_def b(1) using a'(1) by simp
  with b(2) a'(2) show ?thesis by (intro exI [of _ b] exI [of _ "rev a'"]) simp
qed

lemma dropWhile_all:
  "list_all P ws \<Longrightarrow> xs \<noteq> [] \<Longrightarrow> \<not> P (hd xs) \<Longrightarrow> dropWhile P (ws @ xs) = xs"
  by (induction ws) (simp_all add: dropWhile_eq_self_iff)

lemma trim_spaces_around:
  assumes "xs \<noteq> []" "\<not> is_js_space (hd xs)" "\<not> is_js_space (last xs)"
    and "list_all is_js_space ws1" "list_all is_js_space ws2"
  shows "trim (ws1 @ xs @ ws2) = xs"
proof -
  have d: "dropWhile is_js_space (ws1 @ xs @ ws2) = xs @ ws2"
    using dropWhile_all [of is_js_space ws1 "xs @ ws2"] assms(1,2,4) by simp
  have "dropWhile is_js_space (rev ws2 @ rev xs) = rev xs"
    using dropWhile_all [of is_js_space "rev ws2" "rev xs"] assms(1,3,5) by (simp add: hd_rev)
  with d show ?thesis by (simp add: trim_def)
qed


lemma objectMatch_braced:
  assumes "CHR ''{'' \<notin> set b" "CHR ''}'' \<notin> set a"
  shows "objectMatch (b @ (CHR ''{'' # mid @ ''}'') @ a) = Some (CHR ''{'' # mid @ ''}'')"
proof -
  let ?obj = "CHR ''{'' # mid @ ''}''"
  have "list_all (\<lambda>c. c \<noteq> CHR ''{'') b" using assms(1) by (auto simp: list_all_iff)
  then have f: "dropWhile (\<lambda>c. c \<noteq> CHR ''{'') (b @ ?obj @ a) = ?obj @ a"
    using dropWhile_all [of "\<lambda>c. c \<noteq> CHR ''{''" b "?obj @ a"] by simp
  have "list_all (\<lambda>c. c \<noteq> CHR ''}'') (rev a)" using assms(2) by (auto simp: list_all_iff)
  then have "dropWhile (\<lambda>c. c \<noteq> CHR ''}'') (rev a @ rev ?obj) = rev ?obj"
    using dropWhile_all [of "\<lambda>c. c \<noteq> CHR ''}''" "rev a" "rev ?obj"] by simp
  then have "rev (dropWhile (\<lambda>c. c \<noteq> CHR ''}'') (rev (?obj @ a))) = ?obj"
    by simp
  then show ?thesis unfolding objectMatch_def Let_def f by simp
qed

lemma braced_ends:
  "CHR ''{'' # mid @ ''}'' \<noteq> []" "\<not> is_js_space (hd (CHR ''{'' # mid @ ''}''))"
  "\<not> is_js_space (last (CHR ''{'' # mid @ ''}''))"
  by (simp_all add: is_js_space_def)

lemma jsonStr_prose:
  assumes "CHR ''{'' \<notin> set before" "CHR ''}'' \<notin> set after"
    and "\<not> sublist ''```'' (before @ (CHR ''{'' # mid @ ''}'') @ after)"
  shows "jsonStr (before @ (CHR ''{'' # mid @ ''}'') @ after) = CHR ''{'' # mid @ ''}''"
proof -
  let ?obj = "CHR ''{'' # mid @ ''}''"
  have cb: "codeBlock (before @ ?obj @ after) = None"
    using split_at_first_none [OF _ assms(3)] by (simp add: codeBlock_def)
  from trim_keeps [of ?obj before after] braced_ends [of mid] obtain b a where
    t: "trim (before @ ?obj @ after) = b @ ?obj @ a" "set b \<subseteq> set before" "set a \<subseteq> set after"
    by blast
  with assms have "CHR ''{'' \<notin> set b" "CHR ''}'' \<notin> set a" by auto
  from objectMatch_braced [OF this, of mid] show ?thesis
    unfolding jsonStr_def Let_def cb t(1) by simp
qed


lemma spaces_no_fence:
  assumes "list_all is_js_space ws"
  shows "\<not> sublist ''```'' ws" "\<not> prefix ''``'' ws" "\<not> prefix ''`'' ws"
proof -
  have nb: "CHR ''`'' \<notin> set ws" using assms by (auto simp: list_all_iff is_js_space_def)
  show "\<not> sublist ''```'' ws"
  proof
    assume "sublist ''```'' ws"
    then have "set ''```'' \<subseteq> set ws" by (rule set_mono_sublist)
    with nb show False by simp
  qed
  show "\<not> prefix ''``'' ws" using nb by (cases ws) auto
  show "\<not> prefix ''`'' ws" using nb by (cases ws) auto
qed

lemma jsonStr_fenced:
  assumes before: "\<not> sublist ''```'' before" "before = [] \<or> last before \<noteq> CHR ''`''"
    and obj: "\<not> sublist ''```'' (CHR ''{'' # mid @ ''}'')"
    and tag: "tag = [] \<or> tag = ''json''"
    and ws: "list_all is_js_space ws1" "list_all is_js_space ws2"
  shows "jsonStr (before @ ''```'' @ tag @ ws1 @ (CHR ''{'' # mid @ ''}'') @ ws2 @ ''```'' @ after)
           = CHR ''{'' # mid @ ''}''"
proof -
  let ?obj = "CHR ''{'' # mid @ ''}''"
  let ?tail = "?obj @ ws2 @ ''```'' @ after"
  have open_fence: "split_at_first ''```'' [] (before @ ''```'' @ tag @ ws1 @ ?tail)
      = Some (before, tag @ ws1 @ ?tail)"
    using split_at_fence [OF before, of "[]" "tag @ ws1 @ ?tail"] by simp
  have not_json: "\<not> prefix ''json'' (ws1 @ ?tail)"
    using ws(1) by (cases ws1) (auto simp: is_js_space_def)
  have rest1: "(if prefix ''json'' (tag @ ws1 @ ?tail) then drop 4 (tag @ ws1 @ ?tail) else tag @ ws1 @ ?tail)
      = ws1 @ ?tail"
    using tag not_json by auto
  have rest2: "dropWhile is_js_space (ws1 @ ?tail) = ?tail"
    using dropWhile_all [of is_js_space ws1 ?tail] ws(1) by (simp add: is_js_space_def)
  have inner_clean: "\<not> sublist ''```'' (?obj @ ws2)"
    using obj spaces_no_fence [OF ws(2)] unfolding sublist3_append by simp
  have inner_last: "?obj @ ws2 = [] \<or> last (?obj @ ws2) \<noteq> CHR ''`''"
    using ws(2) by (cases ws2 rule: rev_cases) (auto simp: is_js_space_def)
  have close_fence: "split_at_first ''```'' [] (?tail) = Some (?obj @ ws2, after)"
    using split_at_fence [OF inner_clean inner_last, of "[]" after] by simp
  have cb: "codeBlock (before @ ''```'' @ tag @ ws1 @ ?tail) = Some (?obj @ ws2)"
    unfolding codeBlock_def open_fence option.case prod.case Let_def rest1 rest2 close_fence
    by simp
  have tr: "trim (?obj @ ws2) = ?obj"
    using trim_spaces_around [of ?obj "[]" ws2] braced_ends [of mid] ws(2) by simp
  have om: "objectMatch ?obj = Some ?obj"
    using objectMatch_braced [of "[]" "[]" mid] by simp
  show ?thesis
    unfolding jsonStr_def Let_def using cb tr om by simp
qed

lemma validate_Some:
  "validate parsed = Some r \<Longrightarrow>
     get_prop parsed ''thought'' = Some (resp_thought r) \<and> get_prop parsed ''action'' = Some (resp_action r)
     \<and> truthy (resp_thought r) \<and> truthy (resp_action r)
     \<and> (resp_done r \<longleftrightarrow> get_prop parsed ''done'' = Some (JBool True)
                          \<or> get_prop (resp_action r) ''type'' = Some (JString (units ''done'')))"
  by (auto simp: validate_def split: if_splits option.splits)

lemma validate_missing:
  "get_prop parsed ''thought'' = None \<or> get_prop parsed ''action'' = None \<Longrightarrow> validate parsed = None"
  by (auto simp: validate_def split: option.splits)

text \<open>
  C4 (as amended). \<open>parseAgentResponse\<close> parses the text from the first opening brace to
  the last closing brace, inside the first fenced code block when there is one. So an
  object \<open>{...}\<close> is found when the prose before it has no opening brace and the prose
  after it no closing brace (and the reply has no fence), and when it stands alone in
  the first fenced block, tagged \<open>json\<close> or not, whatever follows the fence. A reply whose
  text is not JSON, or whose object lacks \<open>thought\<close> or \<open>action\<close>, gives null. When a
  decision is returned, its \<open>thought\<close> and \<open>action\<close> are the truthy members of the parsed
  object, and \<open>done\<close> is true if and only if the object's \<open>done\<close> is \<open>true\<close> or the
  action's \<open>type\<close> is \<open>done\<close>.
\<close>

theorem parseAgentResponse_contract:
  "(CHR ''{'' \<notin> set before \<and> CHR ''}'' \<notin> set after
      \<and> \<not> sublist ''```'' (before @ (CHR ''{'' # mid @ ''}'') @ after)
      \<longrightarrow> jsonStr (before @ (CHR ''{'' # mid @ ''}'') @ after) = CHR ''{'' # mid @ ''}''
          \<and> parseAgentResponse (before @ (CHR ''{'' # mid @ ''}'') @ after)
              = parseAgentResponse (CHR ''{'' # mid @ ''}''))
   \<and> (\<not> sublist ''```'' lead \<and> (lead = [] \<or> last lead \<noteq> CHR ''`'')
       \<and> \<not> sublist ''```'' (CHR ''{'' # inner @ ''}'') \<and> (tag = [] \<or> tag = ''json'')
       \<and> list_all is_js_space ws1 \<and> list_all is_js_space ws2
      \<longrightarrow> jsonStr (lead @ ''```'' @ tag @ ws1 @ (CHR ''{'' # inner @ ''}'') @ ws2 @ ''```'' @ trail)
            = CHR ''{'' # inner @ ''}''
          \<and> parseAgentResponse (lead @ ''```'' @ tag @ ws1 @ (CHR ''{'' # inner @ ''}'') @ ws2 @ ''```'' @ trail)
              = parseAgentResponse (CHR ''{'' # inner @ ''}''))
   \<and> (JSON_parse (jsonStr malformed) = None \<longrightarrow> parseAgentResponse malformed = None)
   \<and> (JSON_parse (jsonStr incomplete) = Some parsed
        \<and> (get_prop parsed ''thought'' = None \<or> get_prop parsed ''action'' = None)
      \<longrightarrow> parseAgentResponse incomplete = None)
   \<and> (parseAgentResponse response = Some r
      \<longrightarrow> (\<exists>v. JSON_parse (jsonStr response) = Some v
            \<and> get_prop v ''thought'' = Some (resp_thought r)
            \<and> get_prop v ''action'' = Some (resp_action r)
            \<and> truthy (resp_thought r) \<and> truthy (resp_action r)
            \<and> (resp_done r \<longleftrightarrow> get_prop v ''done'' = Some (JBool True)
                                 \<or> get_prop (resp_action r) ''type'' = Some (JString (units ''done'')))))"
proof (intro conjI impI)
  assume a: "CHR ''{'' \<notin> set before \<and> CHR ''}'' \<notin> set after
      \<and> \<not> sublist ''```'' (before @ (CHR ''{'' # mid @ ''}'') @ after)"
  then have whole: "jsonStr (before @ (CHR ''{'' # mid @ ''}'') @ after) = CHR ''{'' # mid @ ''}''"
    by (intro jsonStr_prose) simp_all
  from a have "\<not> sublist ''```'' (CHR ''{'' # mid @ ''}'')"
    by (metis sublist_appendI sublist_order.order_trans)
  then have alone: "jsonStr (CHR ''{'' # mid @ ''}'') = CHR ''{'' # mid @ ''}''"
    using jsonStr_prose [of "[]" "[]" mid] by simp
  show "jsonStr (before @ (CHR ''{'' # mid @ ''}'') @ after) = CHR ''{'' # mid @ ''}''" by (rule whole)
  show "parseAgentResponse (before @ (CHR ''{'' # mid @ ''}'') @ after)
      = parseAgentResponse (CHR ''{'' # mid @ ''}'')"
    unfolding parseAgentResponse_def whole alone ..
next
  assume a: "\<not> sublist ''```'' lead \<and> (lead = [] \<or> last lead \<noteq> CHR ''`'')
       \<and> \<not> sublist ''```'' (CHR ''{'' # inner @ ''}'') \<and> (tag = [] \<or> tag = ''json'')
       \<and> list_all is_js_space ws1 \<and> list_all is_js_space ws2"
  then have whole: "jsonStr (lead @ ''```'' @ tag @ ws1 @ (CHR ''{'' # inner @ ''}'') @ ws2 @ ''```'' @ trail)
      = CHR ''{'' # inner @ ''}''"
    by (intro jsonStr_fenced) simp_all
  from a have alone: "jsonStr (CHR ''{'' # inner @ ''}'') = CHR ''{'' # inner @ ''}''"
    using jsonStr_prose [of "[]" "[]" inner] by simp
  show "jsonStr (lead @ ''```'' @ tag @ ws1 @ (CHR ''{'' # inner @ ''}'') @ ws2 @ ''```'' @ trail)
      = CHR ''{'' # inner @ ''}''" by (rule whole)
  show "parseAgentResponse (lead @ ''```'' @ tag @ ws1 @ (CHR ''{'' # inner @ ''}'') @ ws2 @ ''```'' @ trail)
      = parseAgentResponse (CHR ''{'' # inner @ ''}'')"
    unfolding parseAgentResponse_def whole alone ..
next
  assume "JSON_parse (jsonStr malformed) = None"
  then show "parseAgentResponse malformed = None" by (simp add: parseAgentResponse_def)
next
  assume "JSON_parse (jsonStr incomplete) = Some parsed
        \<and> (get_prop parsed ''thought'' = None \<or> get_prop parsed ''action'' = None)"
  then show "parseAgentResponse incomplete = None"
    by (auto simp: parseAgentResponse_def validate_missing)
next
  assume a: "parseAgentResponse response = Some r"
  then obtain v where v: "JSON_parse (jsonStr response) = Some v" "validate v = Some r"
    by (auto simp: parseAgentResponse_def split: option.splits)
  from validate_Some [OF v(2)] v(1)
  show "\<exists>v. JSON_parse (jsonStr response) = Some v
            \<and> get_prop v ''thought'' = Some (resp_thought r)
            \<and> get_prop v ''action'' = Some (resp_action r)
            \<and> truthy (resp_thought r) \<and> truthy (resp_action r)
            \<and> (resp_done r \<longleftrightarrow> get_prop v ''done'' = Some (JBool True)
                                 \<or> get_prop (resp_action r) ''type'' = Some (JString (units ''done'')))"
    by blast
qed


text \<open>
  C4 as stated fails: a reply that starts with a well-formed decision and goes on with
  prose that contains braces gives null, since the text handed to \<open>JSON.parse\<close> runs to
  the last closing brace; the decision alone is parsed.
\<close>

theorem parser_takes_last_brace_counterexample:
  \<open>parseAgentResponse ''{"thought":"t","action":{"type":"done","summary":"s"}} I used {braces}.'' = None
   \<and> jsonStr ''{"thought":"t","action":{"type":"done","summary":"s"}} I used {braces}.''
       = ''{"thought":"t","action":{"type":"done","summary":"s"}} I used {braces}''
   \<and> parseAgentResponse ''{"thought":"t","action":{"type":"done","summary":"s"}}''
       = Some \<lparr>resp_thought = JString (units ''t''),
               resp_action = JObject [(units ''type'', JString (units ''done'')),
                                      (units ''summary'', JString (units ''s''))],
               resp_done = True\<rparr>\<close>
  by code_simp

lemma example_replies:
  \<open>parseAgentResponse ''{"thought":"t","action":{"type":"click","selector":"Go"}}''
     = Some \<lparr>resp_thought = JString (units ''t''),
             resp_action = JObject [(units ''type'', JString (units ''click'')),
                                    (units ''selector'', JString (units ''Go''))],
             resp_done = False\<rparr>\<close>
  \<open>JSON_parse (jsonStr ''{"thought":"t" "action":1}'') = None\<close>
  \<open>JSON_parse (jsonStr ''{"thought":"t"}'') = Some (JObject [(units ''thought'', JString (units ''t''))])\<close>
  \<open>get_prop (JObject [(units ''thought'', JString (units ''t''))]) ''action'' = None\<close>
  \<open>parseAgentResponse ''{"thought":"x","action":{"type":"wait"},"done":true}''
     = Some \<lparr>resp_thought = JString (units ''x''),
             resp_action = JObject [(units ''type'', JString (units ''wait''))],
             resp_done = True\<rparr>\<close>
  \<open>get_prop (JObject [(units ''type'', JString (units ''wait''))]) ''type'' = Some (JString (units ''wait''))\<close>
  by code_simp+

lemma example_prose_clean:
  \<open>\<not> sublist ''```'' ''Here is my decision: {"thought":"t","action":{"type":"click","selector":"Go"}} Done.''\<close>
  \<open>\<not> sublist ''```'' ''{"thought":"t","action":{"type":"click","selector":"Go"}}''\<close>
  \<open>\<not> sublist ''```'' ''Use `click`, so: ''\<close>
  by code_simp+

theorem parseAgentResponse_contract_witness:
  \<open>parseAgentResponse ''Here is my decision: {"thought":"t","action":{"type":"click","selector":"Go"}} Done.''
     = Some \<lparr>resp_thought = JString (units ''t''),
             resp_action = JObject [(units ''type'', JString (units ''click'')),
                                    (units ''selector'', JString (units ''Go''))],
             resp_done = False\<rparr>
   \<and> parseAgentResponse (''Use `click`, so: ```json'' @ [CHR 0x0A]
         @ ''{"thought":"t","action":{"type":"click","selector":"Go"}}'' @ [CHR 0x0A]
         @ ''``` I hope {that} helps'')
     = Some \<lparr>resp_thought = JString (units ''t''),
             resp_action = JObject [(units ''type'', JString (units ''click'')),
                                    (units ''selector'', JString (units ''Go''))],
             resp_done = False\<rparr>
   \<and> JSON_parse (jsonStr ''{"thought":"t" "action":1}'') = None
   \<and> parseAgentResponse ''{"thought":"t" "action":1}'' = None
   \<and> JSON_parse (jsonStr ''{"thought":"t"}'') = Some (JObject [(units ''thought'', JString (units ''t''))])
   \<and> get_prop (JObject [(units ''thought'', JString (units ''t''))]) ''action'' = None
   \<and> parseAgentResponse ''{"thought":"t"}'' = None
   \<and> map_option resp_done (parseAgentResponse ''{"thought":"x","action":{"type":"wait"},"done":true}'')
       = Some True\<close>
  using parseAgentResponse_contract [where before = \<open>''Here is my decision: ''\<close>
      and mid = \<open>''"thought":"t","action":{"type":"click","selector":"Go"}''\<close>
      and after = \<open>'' Done.''\<close>
      and lead = \<open>''Use `click`, so: ''\<close>
      and inner = \<open>''"thought":"t","action":{"type":"click","selector":"Go"}''\<close>
      and tag = \<open>''json''\<close> and ?ws1.0 = "[CHR 0x0A]" and ?ws2.0 = "[CHR 0x0A]"
      and trail = \<open>'' I hope {that} helps''\<close>
      and malformed = \<open>''{"thought":"t" "action":1}''\<close>
      and incomplete = \<open>''{"thought":"t"}''\<close>
      and parsed = \<open>JObject [(units ''thought'', JString (units ''t''))]\<close>
      and response = \<open>''{"thought":"x","action":{"type":"wait"},"done":true}''\<close>
      and r = \<open>\<lparr>resp_thought = JString (units ''x''),
             resp_action = JObject [(units ''type'', JString (units ''wait''))],
             resp_done = True\<rparr>\<close>]
    example_replies example_prose_clean
  by (simp add: is_js_space_def)

end
